(* ===== verification/Prelude.thy ===== *)
theory Prelude
  imports Main "HOL-Library.Word"
begin

text \<open>
  Shared vocabulary of the development.

  \<^item> the machine integers of the C++ sources as words (\<open>u8\<close>, \<open>u16\<close>, \<open>u32\<close>, \<open>u64\<close>) and
    memory as lists of bytes;
  \<^item> \<open>fault\<close> and \<open>res\<close>: what an operation returns when the C++ program would be undefined,
    abort, or call \<open>exit\<close>; \<open>bindE\<close> sequences such operations;
  \<^item> the byte codec of the little-endian host the simulation runs on: \<open>bytes_of\<close> lays a word
    out in memory, \<open>word_of_bytes\<close> reads it back, and \<open>htons\<close>, \<open>htonl\<close>, \<open>ntohs\<close>,
    \<open>ntohl\<close> reverse the bytes;
  \<^item> \<open>load\<close> and \<open>store\<close>: a bounds-checked access of a field at a byte offset, which is what
    a cast of a buffer to a packed struct and a member access do.

  The collections \<open>res_simps\<close> (results), \<open>codec_simps\<close> (codecs) and \<open>layout_simps\<close> (struct
  layouts) are what the component proofs unfold.
\<close>

unbundle bit_operations_syntax

section \<open>Machine types\<close>

type_synonym u8 = "8 word"
type_synonym u16 = "16 word"
type_synonym u32 = "32 word"
type_synonym u64 = "64 word"
type_synonym mem = "u8 list"

named_theorems res_simps \<open>sequencing of results\<close>
named_theorems codec_simps \<open>byte codecs\<close>
named_theorems layout_simps \<open>struct layouts\<close>

section \<open>Results\<close>

text \<open>
  A fault is a behaviour the C++ abstract machine gives no result for, or the end of the
  process. \<open>Exit s n\<close> is a call of \<open>exit(n)\<close> after \<open>s\<close> was given to \<open>perror\<close> or printed to
  \<open>stderr\<close> (empty when nothing was). One indeterminate value is not a fault but an input of the
  model: the byte that \<open>TCPPcap_get_buf_fr_io\<close> reads from its uninitialised array.
\<close>

datatype fault =
    OutOfBounds \<comment> \<open>read or write outside an object\<close>
  | Uninitialised \<comment> \<open>an indeterminate integer is used\<close>
  | UseAfterFree \<comment> \<open>access to an object after its lifetime\<close>
  | DoubleFree \<comment> \<open>a second release of the same object\<close>
  | EmptyQueue \<comment> \<open>\<open>front\<close> or \<open>pop\<close> of an empty container\<close>
  | Exit string int

type_synonym 'a res = "fault + 'a"

definition bindE :: "'a res \<Rightarrow> ('a \<Rightarrow> 'b res) \<Rightarrow> 'b res" where
  "bindE m f = (case m of Inl e \<Rightarrow> Inl e | Inr x \<Rightarrow> f x)"

lemma bindE_Inl [simp, res_simps]: "bindE (Inl e) f = Inl e"
  by (simp add: bindE_def)

lemma bindE_Inr [simp, res_simps]: "bindE (Inr x) f = f x"
  by (simp add: bindE_def)

lemma bindE_eq_Inr [res_simps]: "bindE m f = Inr y \<longleftrightarrow> (\<exists>x. m = Inr x \<and> f x = Inr y)"
  by (cases m) auto

lemma bindE_eq_Inl [res_simps]:
  "bindE m f = Inl e \<longleftrightarrow> m = Inl e \<or> (\<exists>x. m = Inr x \<and> f x = Inl e)"
  by (cases m) auto

lemma bindE_cong [fundef_cong]:
  "m = m' \<Longrightarrow> (\<And>x. m' = Inr x \<Longrightarrow> f x = f' x) \<Longrightarrow> bindE m f = bindE m' f'"
  by (cases m') auto

section \<open>Conversion to int\<close>

text \<open>A \<open>size_t\<close> stored in an \<open>int\<close> of 32 bits keeps its low 32 bits.\<close>

definition int_of_size :: "nat \<Rightarrow> int" where
  "int_of_size n = sint (of_nat n :: u32)"

lemma int_of_size_small [simp]: "n < 2 ^ 31 \<Longrightarrow> int_of_size n = int n"
proof -
  assume "n < 2 ^ 31"
  then have "signed_take_bit 31 (int n) = int n" by (simp add: signed_take_bit_int_eq_self)
  then show "int_of_size n = int n" by (simp add: int_of_size_def signed_of_nat)
qed

lemma word_of_int_of_size [simp]: "(word_of_int (int_of_size n) :: u32) = of_nat n"
  by (simp add: int_of_size_def)

text \<open>A size that is too large for the type becomes a negative number, or a smaller one.\<close>

lemma int_of_size_le: "int_of_size n \<le> int n"
proof (cases "n < 2 ^ 31")
  case False
  have "sint (of_nat n :: u32) < 2 ^ 31" using sint_lt [of "of_nat n :: u32"] by simp
  moreover have "(2 :: int) ^ 31 \<le> int n" using False by simp
  ultimately show ?thesis unfolding int_of_size_def by linarith
qed simp

lemma int_of_size_pos:
  assumes "0 < int_of_size n" "n < 2 ^ 32"
  shows "int_of_size n = int n"
proof -
  have "int_of_size n < 2 ^ 31" using sint_lt [of "of_nat n :: u32"] by (simp add: int_of_size_def)
  then have "uint (word_of_int (int_of_size n) :: u32) = int_of_size n"
    using assms(1) by (simp add: uint_word_of_int del: word_of_int_of_size)
  then show ?thesis using assms(2) by (simp add: uint_nat unat_of_nat)
qed

section \<open>The byte codec of the host\<close>

definition byte_at :: "nat \<Rightarrow> 'a::len word \<Rightarrow> u8" where
  "byte_at i w = ucast (drop_bit (8 * i) w)"

text \<open>The \<open>k\<close> bytes of an object of \<open>k\<close> bytes, lowest address first (little endian).\<close>

definition bytes_of :: "nat \<Rightarrow> 'a::len word \<Rightarrow> mem" where
  "bytes_of k w = map (\<lambda>i. byte_at i w) [0..<k]"

primrec word_of_bytes :: "mem \<Rightarrow> 'a::len word" where
  "word_of_bytes [] = 0"
| "word_of_bytes (b # bs) = ucast b OR push_bit 8 (word_of_bytes bs)"

lemma length_bytes_of [simp]: "length (bytes_of k w) = k"
  by (simp add: bytes_of_def)

lemma nth_bytes_of [simp]: "i < k \<Longrightarrow> bytes_of k w ! i = byte_at i w"
  by (simp add: bytes_of_def)

lemma bit_byte_at: "bit (byte_at i w) n \<longleftrightarrow> n < 8 \<and> bit w (8 * i + n)"
  by (simp add: byte_at_def bit_simps)

lemma bit_word_of_bytes:
  "bit (word_of_bytes bs :: 'a::len word) n \<longleftrightarrow>
     n < LENGTH('a) \<and> n div 8 < length bs \<and> bit (bs ! (n div 8)) (n mod 8)"
proof (induction bs arbitrary: n)
  case Nil
  then show ?case by simp
next
  case (Cons b bs)
  show ?case
  proof (cases "n < 8")
    case True
    then show ?thesis by (auto simp: bit_simps)
  next
    case False
    then obtain m where n: "n = m + 8" by (metis add.commute le_Suc_ex not_less)
    have d: "(m + 8) div 8 = Suc (m div 8)" "(m + 8) mod 8 = m mod 8" by simp_all
    have "\<not> bit b (m + 8)" by (auto dest: bit_imp_le_length)
    with Cons.IH [of m] show ?thesis unfolding n d by (auto simp: bit_simps)
  qed
qed

lemma word_of_bytes_bytes_of [simp, codec_simps]:
  assumes "8 * k = LENGTH('a)"
  shows "word_of_bytes (bytes_of k w) = (w :: 'a::len word)"
proof (rule bit_word_eqI)
  fix n assume n: "n < LENGTH('a)"
  then have "n div 8 < k" using assms by auto
  then show "bit (word_of_bytes (bytes_of k w) :: 'a word) n = bit w n"
    using n by (simp add: bit_word_of_bytes bit_byte_at)
qed

lemma bytes_of_word_of_bytes [codec_simps]:
  assumes "length bs = k" "8 * k \<le> LENGTH('a)"
  shows "bytes_of k (word_of_bytes bs :: 'a::len word) = bs"
proof (rule nth_equalityI)
  show "length (bytes_of k (word_of_bytes bs :: 'a word)) = length bs" using assms by simp
next
  fix i assume "i < length (bytes_of k (word_of_bytes bs :: 'a word))"
  then have i: "i < k" by simp
  show "bytes_of k (word_of_bytes bs :: 'a word) ! i = bs ! i"
  proof (rule bit_word_eqI)
    fix n assume "n < LENGTH(8)"
    then have "n < 8" by simp
    moreover have "(8 * i + n) div 8 = i" "(8 * i + n) mod 8 = n" using \<open>n < 8\<close> by simp_all
    moreover have "8 * i + n < LENGTH('a)" using assms i \<open>n < 8\<close> by linarith
    ultimately show "bit (bytes_of k (word_of_bytes bs :: 'a word) ! i) n = bit (bs ! i) n"
      using i assms by (simp add: bit_byte_at bit_word_of_bytes)
  qed
qed

text \<open>The codec as an injection: two words with the same bytes are the same word.\<close>

lemma bytes_of_inject [simp]:
  assumes "8 * k = LENGTH('a)"
  shows "bytes_of k v = bytes_of k w \<longleftrightarrow> v = (w :: 'a::len word)"
  using assms word_of_bytes_bytes_of by metis

text \<open>The numeric value of a little-endian byte string.\<close>

lemma uint_word_of_bytes_Cons:
  assumes "8 * Suc (length bs) \<le> LENGTH('a)"
  shows "uint (word_of_bytes (b # bs) :: 'a::len word) =
    uint b + 256 * uint (word_of_bytes bs :: 'a word)"
proof -
  let ?w = "word_of_bytes bs :: 'a word"
  have L: "8 * length bs + 8 \<le> LENGTH('a)" using assms by simp
  have "uint (word_of_bytes (b # bs) :: 'a word) = uint (ucast b :: 'a word) OR uint (push_bit 8 ?w)"
    by (simp add: unsigned_or_eq)
  also have "uint (ucast b :: 'a word) = uint b"
    using L by (simp add: uint_up_ucast is_up)
  also have "uint (push_bit 8 ?w) = push_bit 8 (uint ?w)"
  proof (rule bit_eqI)
    fix n
    have "bit ?w (n - 8) \<Longrightarrow> 8 \<le> n \<Longrightarrow> n < LENGTH('a)"
    proof -
      assume "bit ?w (n - 8)" "8 \<le> n"
      then have "(n - 8) div 8 < length bs" by (simp add: bit_word_of_bytes)
      with L \<open>8 \<le> n\<close> show "n < LENGTH('a)" by linarith
    qed
    then show "bit (uint (push_bit 8 ?w)) n = bit (push_bit 8 (uint ?w)) n"
      by (auto simp: bit_simps)
  qed
  also have "uint b OR push_bit 8 (uint ?w) = uint b + push_bit 8 (uint ?w)"
    by (rule sym, rule disjunctive_add) (auto simp: bit_simps dest: bit_imp_le_length)
  finally show ?thesis by (simp add: push_bit_eq_mult)
qed

lemma uint_word_of_2_bytes:
  "uint (word_of_bytes [a, b] :: u16) = uint a + 256 * uint b"
  by (subst uint_word_of_bytes_Cons, simp, subst uint_word_of_bytes_Cons, simp, simp)

subsection \<open>Network byte order\<close>

text \<open>On a little-endian host the four conversions reverse the bytes of their argument.\<close>

definition htons :: "u16 \<Rightarrow> u16" where
  "htons w = word_of_bytes (rev (bytes_of 2 w))"

definition htonl :: "u32 \<Rightarrow> u32" where
  "htonl w = word_of_bytes (rev (bytes_of 4 w))"

definition ntohs :: "u16 \<Rightarrow> u16" where
  "ntohs w = word_of_bytes (rev (bytes_of 2 w))"

definition ntohl :: "u32 \<Rightarrow> u32" where
  "ntohl w = word_of_bytes (rev (bytes_of 4 w))"

lemma bytes_of_htons [codec_simps]: "bytes_of 2 (htons w) = rev (bytes_of 2 w)"
  by (simp add: htons_def bytes_of_word_of_bytes)

lemma bytes_of_ntohs [codec_simps]: "bytes_of 2 (ntohs w) = rev (bytes_of 2 w)"
  by (simp add: ntohs_def bytes_of_word_of_bytes)

lemma bytes_of_htonl [codec_simps]: "bytes_of 4 (htonl w) = rev (bytes_of 4 w)"
  by (simp add: htonl_def bytes_of_word_of_bytes)

lemma bytes_of_ntohl [codec_simps]: "bytes_of 4 (ntohl w) = rev (bytes_of 4 w)"
  by (simp add: ntohl_def bytes_of_word_of_bytes)

lemma ntohs_htons [simp]: "ntohs (htons w) = w"
  by (simp add: ntohs_def bytes_of_htons)

lemma htons_ntohs [simp]: "htons (ntohs w) = w"
  by (simp add: htons_def bytes_of_ntohs)

lemma ntohl_htonl [simp]: "ntohl (htonl w) = w"
  by (simp add: ntohl_def bytes_of_htonl)

lemma htonl_ntohl [simp]: "htonl (ntohl w) = w"
  by (simp add: htonl_def bytes_of_ntohl)

lemma ntohs_eq_iff: "ntohs v = w \<longleftrightarrow> v = htons w"
  by auto

section \<open>Memory\<close>

text \<open>The \<open>k\<close>-byte integer at offset \<open>off\<close>, and a \<open>k\<close>-byte range of memory replaced.\<close>

definition load :: "nat \<Rightarrow> mem \<Rightarrow> nat \<Rightarrow> 'a::len word res" where
  "load k m off =
     (if off + k \<le> length m then Inr (word_of_bytes (take k (drop off m))) else Inl OutOfBounds)"

definition load_bytes :: "nat \<Rightarrow> mem \<Rightarrow> nat \<Rightarrow> mem res" where
  "load_bytes k m off =
     (if off + k \<le> length m then Inr (take k (drop off m)) else Inl OutOfBounds)"

definition store :: "mem \<Rightarrow> nat \<Rightarrow> mem \<Rightarrow> mem res" where
  "store m off bs =
     (if off + length bs \<le> length m then Inr (take off m @ bs @ drop (off + length bs) m)
      else Inl OutOfBounds)"

lemma load_inside [res_simps]:
  "off + k \<le> length m \<Longrightarrow> load k m off = Inr (word_of_bytes (take k (drop off m)))"
  by (simp add: load_def)

lemma load_outside [res_simps]: "length m < off + k \<Longrightarrow> load k m off = Inl OutOfBounds"
  by (simp add: load_def)

lemma take_1_drop: "off < length m \<Longrightarrow> take (Suc 0) (drop off m) = [m ! off]"
  by (simp add: take_Suc_conv_app_nth)

lemma load_byte [res_simps]: "off < length m \<Longrightarrow> load (Suc 0) m off = Inr (m ! off)"
  by (simp add: load_def take_1_drop)

lemma load_eq_Inr:
  "load k m off = Inr w \<longleftrightarrow> off + k \<le> length m \<and> w = word_of_bytes (take k (drop off m))"
  by (auto simp: load_def)

lemma load_bytes_inside [res_simps]:
  "off + k \<le> length m \<Longrightarrow> load_bytes k m off = Inr (take k (drop off m))"
  by (simp add: load_bytes_def)

lemma store_inside [res_simps]:
  "off + length bs \<le> length m \<Longrightarrow>
     store m off bs = Inr (take off m @ bs @ drop (off + length bs) m)"
  by (simp add: store_def)

lemma length_store: "store m off bs = Inr m' \<Longrightarrow> length m' = length m"
  by (auto simp: store_def split: if_splits)

lemma load_after_store [codec_simps]:
  assumes "store m off (bytes_of k w) = Inr m'" "8 * k = LENGTH('a)"
  shows "load k m' off = Inr (w :: 'a::len word)"
  using assms by (auto simp: store_def load_def split: if_splits)

text \<open>A list cut at consecutive offsets is the concatenation of the pieces.\<close>

lemma take_drop_glue: "j = k + i \<Longrightarrow> take i (drop k xs) @ drop j xs = drop k xs"
  by (simp add: add.commute flip: drop_drop)

section \<open>Structs in memory\<close>

text \<open>
  What a cast between a struct and memory relies on: \<open>enc\<close> lays a well-formed value out in \<open>sz\<close>
  bytes, \<open>dec\<close> reads one from the start of memory, and the two are inverse on memory of that size.
  The wire headers, the header of a capture record and the header structs of the C library
  interpret this.
\<close>

locale struct_layout =
  fixes enc :: "'a \<Rightarrow> mem" and dec :: "mem \<Rightarrow> 'a" and sz :: nat and ok :: "'a \<Rightarrow> bool"
  assumes enc_size: "ok x \<Longrightarrow> length (enc x) = sz"
    and dec_enc: "ok x \<Longrightarrow> dec (enc x @ rest) = x"
    and dec_ok: "length m = sz \<Longrightarrow> ok (dec m)"
    and enc_dec: "length m = sz \<Longrightarrow> enc (dec m) = m"
begin

text \<open>Reading the struct that lies at the start of memory.\<close>

lemma dec_enc_only: "ok x \<Longrightarrow> dec (enc x) = x"
  using dec_enc [where rest = "[]"] by simp

end

end
