(* ===== verification/Flows.thy ===== *)
theory Flows
  imports Prelude
begin

text \<open>
  The data of \<^verbatim>\<open>src/sim_dpi/flows.h\<close>: the packed header structs the trace replayer casts
  packet buffers to, the TCP flag constants, the flow table entries, and the key
  \<open>TCPFlowTuple\<close> of the replayer's flow table with its equality and its hash.

  Every packed struct has a layout: \<open>S_bytes\<close> is the memory of a value, \<open>S_of_bytes\<close> the
  value a cast reads. The two are mutually inverse on memory of the struct's size.
\<close>

section \<open>Constants\<close>

definition TCP_FIN :: u8 where "TCP_FIN = 1"
definition TCP_SYN :: u8 where "TCP_SYN = 2"
definition TCP_RST :: u8 where "TCP_RST = 4"
definition TCP_PSH :: u8 where "TCP_PSH = 8"
definition TCP_ACK :: u8 where "TCP_ACK = 16"
definition TCP_URG :: u8 where "TCP_URG = 32"
definition TCP_ECE :: u8 where "TCP_ECE = 64"
definition TCP_CWR :: u8 where "TCP_CWR = 128"

definition HOST_IP :: u32 where "HOST_IP = 0x12700000"
definition BASE_DEST_IP :: u32 where "BASE_DEST_IP = 0x12800000"
definition HOST_PORT :: u16 where "HOST_PORT = 0x100"
definition BASE_DEST_PORT :: u16 where "BASE_DEST_PORT = 0x1000"

definition ACTIVE_FLOW_CNT :: nat where "ACTIVE_FLOW_CNT = 4"
definition NUM_PAYLOADS :: nat where "NUM_PAYLOADS = 16"

lemmas tcp_flag_defs = TCP_FIN_def TCP_SYN_def TCP_RST_def TCP_PSH_def
  TCP_ACK_def TCP_URG_def TCP_ECE_def TCP_CWR_def

section \<open>Packed headers\<close>

record tcp_header =
  src_port :: u16
  dst_port :: u16
  seq_num :: u32
  ack_num :: u32
  hdrlen_rsvd_nonce :: u8
  tcp_flags :: u8
  win_size :: u16
  chksum :: u16
  urg_pointer :: u16

definition tcp_header_bytes :: "tcp_header \<Rightarrow> mem" where
  "tcp_header_bytes h =
     bytes_of 2 (src_port h) @ bytes_of 2 (dst_port h) @ bytes_of 4 (seq_num h) @
     bytes_of 4 (ack_num h) @ bytes_of 1 (hdrlen_rsvd_nonce h) @ bytes_of 1 (tcp_flags h) @
     bytes_of 2 (win_size h) @ bytes_of 2 (chksum h) @ bytes_of 2 (urg_pointer h)"

definition tcp_header_of_bytes :: "mem \<Rightarrow> tcp_header" where
  "tcp_header_of_bytes m =
     \<lparr>src_port = word_of_bytes (take 2 m),
      dst_port = word_of_bytes (take 2 (drop 2 m)),
      seq_num = word_of_bytes (take 4 (drop 4 m)),
      ack_num = word_of_bytes (take 4 (drop 8 m)),
      hdrlen_rsvd_nonce = word_of_bytes (take 1 (drop 12 m)),
      tcp_flags = word_of_bytes (take 1 (drop 13 m)),
      win_size = word_of_bytes (take 2 (drop 14 m)),
      chksum = word_of_bytes (take 2 (drop 16 m)),
      urg_pointer = word_of_bytes (take 2 (drop 18 m))\<rparr>"

record ip_hdr =
  ver_ihl :: u8
  ip_tos :: u8
  total_length :: u16
  ip_ident :: u16
  flags_fo :: u16
  ip_ttl :: u8
  ip_protocol :: u8
  ip_checksum :: u16
  src_addr :: u32
  dst_addr :: u32

definition ip_hdr_bytes :: "ip_hdr \<Rightarrow> mem" where
  "ip_hdr_bytes h =
     bytes_of 1 (ver_ihl h) @ bytes_of 1 (ip_tos h) @ bytes_of 2 (total_length h) @
     bytes_of 2 (ip_ident h) @ bytes_of 2 (flags_fo h) @ bytes_of 1 (ip_ttl h) @
     bytes_of 1 (ip_protocol h) @ bytes_of 2 (ip_checksum h) @
     bytes_of 4 (src_addr h) @ bytes_of 4 (dst_addr h)"

definition ip_hdr_of_bytes :: "mem \<Rightarrow> ip_hdr" where
  "ip_hdr_of_bytes m =
     \<lparr>ver_ihl = word_of_bytes (take 1 m),
      ip_tos = word_of_bytes (take 1 (drop 1 m)),
      total_length = word_of_bytes (take 2 (drop 2 m)),
      ip_ident = word_of_bytes (take 2 (drop 4 m)),
      flags_fo = word_of_bytes (take 2 (drop 6 m)),
      ip_ttl = word_of_bytes (take 1 (drop 8 m)),
      ip_protocol = word_of_bytes (take 1 (drop 9 m)),
      ip_checksum = word_of_bytes (take 2 (drop 10 m)),
      src_addr = word_of_bytes (take 4 (drop 12 m)),
      dst_addr = word_of_bytes (take 4 (drop 16 m))\<rparr>"

text \<open>The two MAC addresses are arrays of six bytes.\<close>

record eth_hdr =
  eth_dst_addr :: mem
  eth_src_addr :: mem
  eth_type :: u16

definition eth_hdr_wf :: "eth_hdr \<Rightarrow> bool" where
  "eth_hdr_wf h \<longleftrightarrow> length (eth_dst_addr h) = 6 \<and> length (eth_src_addr h) = 6"

definition eth_hdr_bytes :: "eth_hdr \<Rightarrow> mem" where
  "eth_hdr_bytes h = eth_dst_addr h @ eth_src_addr h @ bytes_of 2 (eth_type h)"

definition eth_hdr_of_bytes :: "mem \<Rightarrow> eth_hdr" where
  "eth_hdr_of_bytes m =
     \<lparr>eth_dst_addr = take 6 m, eth_src_addr = take 6 (drop 6 m),
      eth_type = word_of_bytes (take 2 (drop 12 m))\<rparr>"

record eth_vlan_hdr =
  vlan_dst_addr :: mem
  vlan_src_addr :: mem
  vlan_tag :: u32
  vlan_eth_type :: u16

definition eth_vlan_hdr_wf :: "eth_vlan_hdr \<Rightarrow> bool" where
  "eth_vlan_hdr_wf h \<longleftrightarrow> length (vlan_dst_addr h) = 6 \<and> length (vlan_src_addr h) = 6"

definition eth_vlan_hdr_bytes :: "eth_vlan_hdr \<Rightarrow> mem" where
  "eth_vlan_hdr_bytes h =
     vlan_dst_addr h @ vlan_src_addr h @ bytes_of 4 (vlan_tag h) @ bytes_of 2 (vlan_eth_type h)"

definition eth_vlan_hdr_of_bytes :: "mem \<Rightarrow> eth_vlan_hdr" where
  "eth_vlan_hdr_of_bytes m =
     \<lparr>vlan_dst_addr = take 6 m, vlan_src_addr = take 6 (drop 6 m),
      vlan_tag = word_of_bytes (take 4 (drop 12 m)),
      vlan_eth_type = word_of_bytes (take 2 (drop 16 m))\<rparr>"

definition ETH_TYPE_IPV4 :: u16 where "ETH_TYPE_IPV4 = 0x0800"
definition ETH_TYPE_VLAN :: u16 where "ETH_TYPE_VLAN = 0x8100"

text \<open>The pseudo header of the TCP checksum; naturally aligned, so twelve bytes as well.\<close>

record TCPChecksumHeader =
  srcAddr :: u32
  dstAddr :: u32
  psh_zero :: u8
  psh_protocol :: u8
  TCP_len :: u16

definition TCPChecksumHeader_bytes :: "TCPChecksumHeader \<Rightarrow> mem" where
  "TCPChecksumHeader_bytes h =
     bytes_of 4 (srcAddr h) @ bytes_of 4 (dstAddr h) @ bytes_of 1 (psh_zero h) @
     bytes_of 1 (psh_protocol h) @ bytes_of 2 (TCP_len h)"

lemmas header_layouts [layout_simps] =
  tcp_header_bytes_def tcp_header_of_bytes_def ip_hdr_bytes_def ip_hdr_of_bytes_def
  eth_hdr_bytes_def eth_hdr_of_bytes_def eth_vlan_hdr_bytes_def eth_vlan_hdr_of_bytes_def
  TCPChecksumHeader_bytes_def

section \<open>Flow table entries\<close>

record flow_lookup =
  host_ip :: u32
  dest_ip :: u32
  host_port :: u16
  dest_port :: u16
  flow_num :: u32
  flow_drive_valid :: bool

record flow_payloads =
  payload_data :: mem
  num_sent :: u32
  packet_drive_valid :: bool

record flow_state =
  lookup_entry :: flow_lookup
  payloads :: flow_payloads

record sliding_win_state =
  received_ack :: u32
  next_send :: u32
  dupack_cnt :: u32

section \<open>The key of the replayer's flow table\<close>

record TCPFlowTuple =
  my_ip :: u32
  their_ip :: u32
  my_port :: u16
  their_port :: u16

definition TCPFlowTuple_eq :: "TCPFlowTuple \<Rightarrow> TCPFlowTuple \<Rightarrow> bool" where
  "TCPFlowTuple_eq a b \<longleftrightarrow>
     my_ip a = my_ip b \<and> their_ip a = their_ip b \<and>
     my_port a = my_port b \<and> their_port a = their_port b"

text \<open>
  Boost's \<open>hash_value\<close> (at the two integer types used) and \<open>hash_combine\<close> are parameters.
\<close>

definition TCPFlowTupleHash ::
  "(u32 \<Rightarrow> u64) \<Rightarrow> (u16 \<Rightarrow> u64) \<Rightarrow> (u64 \<Rightarrow> u64 \<Rightarrow> u64) \<Rightarrow> TCPFlowTuple \<Rightarrow> u64" where
  "TCPFlowTupleHash hash_value32 hash_value16 hash_combine t =
     (let seed = 0;
          seed = hash_combine seed (hash_value32 (my_ip t));
          seed = hash_combine seed (hash_value32 (their_ip t));
          seed = hash_combine seed (hash_value16 (my_port t));
          seed = hash_combine seed (hash_value16 (their_port t))
      in seed)"

section \<open>Layout lemmas\<close>

lemma length_header_bytes [simp]:
  "length (tcp_header_bytes h) = 20"
  "length (ip_hdr_bytes i) = 20"
  "length (TCPChecksumHeader_bytes p) = 12"
  "eth_hdr_wf e \<Longrightarrow> length (eth_hdr_bytes e) = 14"
  "eth_vlan_hdr_wf v \<Longrightarrow> length (eth_vlan_hdr_bytes v) = 18"
  by (simp_all add: layout_simps eth_hdr_wf_def eth_vlan_hdr_wf_def)

lemma tcp_header_of_bytes_bytes: "tcp_header_of_bytes (tcp_header_bytes h @ rest) = h"
  by (simp add: layout_simps)

lemma ip_hdr_of_bytes_bytes: "ip_hdr_of_bytes (ip_hdr_bytes h @ rest) = h"
  by (simp add: layout_simps)

lemma eth_hdr_of_bytes_bytes: "eth_hdr_wf h \<Longrightarrow> eth_hdr_of_bytes (eth_hdr_bytes h @ rest) = h"
  by (simp add: layout_simps eth_hdr_wf_def)

lemma eth_vlan_hdr_of_bytes_bytes:
  "eth_vlan_hdr_wf h \<Longrightarrow> eth_vlan_hdr_of_bytes (eth_vlan_hdr_bytes h @ rest) = h"
  by (simp add: layout_simps eth_vlan_hdr_wf_def)

lemma tcp_header_bytes_of_bytes: "length m = 20 \<Longrightarrow> tcp_header_bytes (tcp_header_of_bytes m) = m"
  by (simp add: layout_simps codec_simps take_drop_glue)

lemma ip_hdr_bytes_of_bytes: "length m = 20 \<Longrightarrow> ip_hdr_bytes (ip_hdr_of_bytes m) = m"
  by (simp add: layout_simps codec_simps take_drop_glue)

lemma eth_hdr_bytes_of_bytes: "length m = 14 \<Longrightarrow> eth_hdr_bytes (eth_hdr_of_bytes m) = m"
  by (simp add: layout_simps codec_simps take_drop_glue)

lemma eth_vlan_hdr_bytes_of_bytes:
  "length m = 18 \<Longrightarrow> eth_vlan_hdr_bytes (eth_vlan_hdr_of_bytes m) = m"
  by (simp add: layout_simps codec_simps take_drop_glue)

interpretation tcp_header_layout: struct_layout tcp_header_bytes tcp_header_of_bytes 20 "\<lambda>_. True"
  by unfold_locales (simp_all add: tcp_header_of_bytes_bytes tcp_header_bytes_of_bytes)

interpretation ip_hdr_layout: struct_layout ip_hdr_bytes ip_hdr_of_bytes 20 "\<lambda>_. True"
  by unfold_locales (simp_all add: ip_hdr_of_bytes_bytes ip_hdr_bytes_of_bytes)

interpretation eth_hdr_layout: struct_layout eth_hdr_bytes eth_hdr_of_bytes 14 eth_hdr_wf
  by unfold_locales
    (simp_all add: eth_hdr_of_bytes_bytes eth_hdr_bytes_of_bytes, simp add: eth_hdr_wf_def eth_hdr_of_bytes_def)

interpretation eth_vlan_hdr_layout: struct_layout eth_vlan_hdr_bytes eth_vlan_hdr_of_bytes 18 eth_vlan_hdr_wf
  by unfold_locales
    (simp_all add: eth_vlan_hdr_of_bytes_bytes eth_vlan_hdr_bytes_of_bytes,
     simp add: eth_vlan_hdr_wf_def eth_vlan_hdr_of_bytes_def)

text \<open>The equality operator is equality, so the container's equivalence is the identity.\<close>

lemma TCPFlowTuple_eq_iff: "TCPFlowTuple_eq a b \<longleftrightarrow> a = b"
  by (cases a, cases b) (auto simp: TCPFlowTuple_eq_def)

end
