(* ===== verification/Netinet.thy ===== *)
theory Netinet
  imports Flows
begin

text \<open>
  The host's own network structs as \<^verbatim>\<open>src/sim_dpi/testing_utils.cpp\<close> uses them
  (\<open>struct iphdr\<close>, \<open>struct tcphdr\<close>, \<open>struct ether_header\<close>, \<open>struct ether_arp\<close>,
  \<open>struct sockaddr_in\<close> of the C library on a little-endian host), and the socket state of
  \<^verbatim>\<open>src/sim_dpi/testing_utils.h\<close>. Bit fields are allocated from the low bit of their byte.
\<close>

section \<open>Protocol constants\<close>

definition ETHER_ADDR_LEN :: nat where "ETHER_ADDR_LEN = 6"
definition ETHERTYPE_IP :: u16 where "ETHERTYPE_IP = 0x0800"
definition ETHERTYPE_ARP :: u16 where "ETHERTYPE_ARP = 0x0806"
definition IPPROTO_TCP :: u8 where "IPPROTO_TCP = 6"
definition ARPHRD_ETHER :: u16 where "ARPHRD_ETHER = 1"
definition ARPOP_REQUEST :: u16 where "ARPOP_REQUEST = 1"
definition ARPOP_REPLY :: u16 where "ARPOP_REPLY = 2"
definition AF_INET :: u16 where "AF_INET = 2"

definition sizeof_ether_header :: nat where "sizeof_ether_header = 14"
definition sizeof_iphdr :: nat where "sizeof_iphdr = 20"
definition sizeof_tcphdr :: nat where "sizeof_tcphdr = 20"
definition sizeof_ether_arp :: nat where "sizeof_ether_arp = 28"
definition sizeof_TCPChecksumHeader :: nat where "sizeof_TCPChecksumHeader = 12"

lemmas sizeofs [simp] = sizeof_ether_header_def sizeof_iphdr_def sizeof_tcphdr_def
  sizeof_ether_arp_def sizeof_TCPChecksumHeader_def ETHER_ADDR_LEN_def

section \<open>Bit fields\<close>

definition nibbles :: "4 word \<Rightarrow> 4 word \<Rightarrow> u8" where
  "nibbles low high = ucast low OR push_bit 4 (ucast high)"

definition low_nibble :: "u8 \<Rightarrow> 4 word" where
  "low_nibble b = ucast b"

definition high_nibble :: "u8 \<Rightarrow> 4 word" where
  "high_nibble b = ucast (drop_bit 4 b)"

lemma low_nibble_nibbles [simp]: "low_nibble (nibbles l h) = l"
  by (rule bit_word_eqI) (auto simp: nibbles_def low_nibble_def bit_simps)

lemma high_nibble_nibbles [simp]: "high_nibble (nibbles l h) = h"
  by (rule bit_word_eqI)
    (auto simp: nibbles_def high_nibble_def bit_simps dest: bit_imp_le_length)

lemma nibbles_of_nibbles [simp]: "nibbles (low_nibble b) (high_nibble b) = b"
  by (rule bit_word_eqI) (auto simp: nibbles_def low_nibble_def high_nibble_def bit_simps)

lemma unat_nibble_less: "unat (x :: 4 word) < 16"
  using unsigned_less [of x] by simp

section \<open>Headers\<close>

record iphdr =
  ihl :: "4 word"
  version :: "4 word"
  tos :: u8
  tot_len :: u16
  ipid :: u16
  frag_off :: u16
  ttl :: u8
  protocol :: u8
  ip_check :: u16
  saddr :: u32
  daddr :: u32

definition iphdr_bytes :: "iphdr \<Rightarrow> mem" where
  "iphdr_bytes h =
     bytes_of 1 (nibbles (ihl h) (version h)) @ bytes_of 1 (tos h) @ bytes_of 2 (tot_len h) @
     bytes_of 2 (ipid h) @ bytes_of 2 (frag_off h) @ bytes_of 1 (ttl h) @
     bytes_of 1 (protocol h) @ bytes_of 2 (ip_check h) @ bytes_of 4 (saddr h) @
     bytes_of 4 (daddr h)"

definition iphdr_of_bytes :: "mem \<Rightarrow> iphdr" where
  "iphdr_of_bytes m =
     \<lparr>ihl = low_nibble (word_of_bytes (take 1 m)),
      version = high_nibble (word_of_bytes (take 1 m)),
      tos = word_of_bytes (take 1 (drop 1 m)),
      tot_len = word_of_bytes (take 2 (drop 2 m)),
      ipid = word_of_bytes (take 2 (drop 4 m)),
      frag_off = word_of_bytes (take 2 (drop 6 m)),
      ttl = word_of_bytes (take 1 (drop 8 m)),
      protocol = word_of_bytes (take 1 (drop 9 m)),
      ip_check = word_of_bytes (take 2 (drop 10 m)),
      saddr = word_of_bytes (take 4 (drop 12 m)),
      daddr = word_of_bytes (take 4 (drop 16 m))\<rparr>"

text \<open>
  \<open>res1\<close> and \<open>doff\<close> share a byte; the six flags and \<open>res2\<close> share the next, \<open>fin\<close> lowest.
\<close>

record tcphdr =
  source :: u16
  dest :: u16
  seq :: u32
  ack_seq :: u32
  res1 :: "4 word"
  doff :: "4 word"
  fin :: bool
  syn :: bool
  rst :: bool
  psh :: bool
  ack :: bool
  urg :: bool
  res2 :: "2 word"
  window :: u16
  tcp_check :: u16
  urg_ptr :: u16

definition flag_byte :: "tcphdr \<Rightarrow> u8" where
  "flag_byte h = horner_sum of_bool 2
     [fin h, syn h, rst h, psh h, ack h, urg h, bit (res2 h) 0, bit (res2 h) 1]"

definition tcphdr_bytes :: "tcphdr \<Rightarrow> mem" where
  "tcphdr_bytes h =
     bytes_of 2 (source h) @ bytes_of 2 (dest h) @ bytes_of 4 (seq h) @ bytes_of 4 (ack_seq h) @
     bytes_of 1 (nibbles (res1 h) (doff h)) @ bytes_of 1 (flag_byte h) @
     bytes_of 2 (window h) @ bytes_of 2 (tcp_check h) @ bytes_of 2 (urg_ptr h)"

definition tcphdr_of_bytes :: "mem \<Rightarrow> tcphdr" where
  "tcphdr_of_bytes m =
     (let fb = word_of_bytes (take 1 (drop 13 m)) :: u8 in
     \<lparr>source = word_of_bytes (take 2 m),
      dest = word_of_bytes (take 2 (drop 2 m)),
      seq = word_of_bytes (take 4 (drop 4 m)),
      ack_seq = word_of_bytes (take 4 (drop 8 m)),
      res1 = low_nibble (word_of_bytes (take 1 (drop 12 m))),
      doff = high_nibble (word_of_bytes (take 1 (drop 12 m))),
      fin = bit fb 0, syn = bit fb 1, rst = bit fb 2, psh = bit fb 3, ack = bit fb 4,
      urg = bit fb 5,
      res2 = ucast (drop_bit 6 fb),
      window = word_of_bytes (take 2 (drop 14 m)),
      tcp_check = word_of_bytes (take 2 (drop 16 m)),
      urg_ptr = word_of_bytes (take 2 (drop 18 m))\<rparr>)"

record ether_header =
  ether_dhost :: mem
  ether_shost :: mem
  ether_type :: u16

definition ether_header_bytes :: "ether_header \<Rightarrow> mem" where
  "ether_header_bytes h = ether_dhost h @ ether_shost h @ bytes_of 2 (ether_type h)"

definition ether_header_of_bytes :: "mem \<Rightarrow> ether_header" where
  "ether_header_of_bytes m =
     \<lparr>ether_dhost = take 6 m, ether_shost = take 6 (drop 6 m),
      ether_type = word_of_bytes (take 2 (drop 12 m))\<rparr>"

record ether_arp =
  ar_hrd :: u16
  ar_pro :: u16
  ar_hln :: u8
  ar_pln :: u8
  ar_op :: u16
  arp_sha :: mem
  arp_spa :: mem
  arp_tha :: mem
  arp_tpa :: mem

definition ether_arp_wf :: "ether_arp \<Rightarrow> bool" where
  "ether_arp_wf a \<longleftrightarrow> length (arp_sha a) = 6 \<and> length (arp_spa a) = 4 \<and>
     length (arp_tha a) = 6 \<and> length (arp_tpa a) = 4"

definition ether_arp_bytes :: "ether_arp \<Rightarrow> mem" where
  "ether_arp_bytes a =
     bytes_of 2 (ar_hrd a) @ bytes_of 2 (ar_pro a) @ bytes_of 1 (ar_hln a) @
     bytes_of 1 (ar_pln a) @ bytes_of 2 (ar_op a) @
     arp_sha a @ arp_spa a @ arp_tha a @ arp_tpa a"

definition ether_arp_of_bytes :: "mem \<Rightarrow> ether_arp" where
  "ether_arp_of_bytes m =
     \<lparr>ar_hrd = word_of_bytes (take 2 m),
      ar_pro = word_of_bytes (take 2 (drop 2 m)),
      ar_hln = word_of_bytes (take 1 (drop 4 m)),
      ar_pln = word_of_bytes (take 1 (drop 5 m)),
      ar_op = word_of_bytes (take 2 (drop 6 m)),
      arp_sha = take 6 (drop 8 m), arp_spa = take 4 (drop 14 m),
      arp_tha = take 6 (drop 18 m), arp_tpa = take 4 (drop 24 m)\<rparr>"

lemmas netinet_layouts [layout_simps] =
  iphdr_bytes_def iphdr_of_bytes_def tcphdr_bytes_def tcphdr_of_bytes_def
  ether_header_bytes_def ether_header_of_bytes_def ether_arp_bytes_def ether_arp_of_bytes_def

section \<open>The socket state\<close>

record sockaddr_in =
  sin_family :: u16
  sin_port :: u16
  s_addr :: u32

record sock_state =
  send_sock :: int
  recv_sock :: int
  source_addr :: sockaddr_in
  dest_addr :: sockaddr_in
  source_mac_addr :: mem
  dest_mac_addr :: mem
  has_syn_acked :: int
  init_ack_num :: u32

definition sock_state_wf :: "sock_state \<Rightarrow> bool" where
  "sock_state_wf s \<longleftrightarrow> length (source_mac_addr s) = 6 \<and> length (dest_mac_addr s) = 6"

section \<open>Layout lemmas\<close>

lemma length_netinet_bytes [simp]:
  "length (iphdr_bytes i) = 20"
  "length (tcphdr_bytes t) = 20"
  "ether_arp_wf a \<Longrightarrow> length (ether_arp_bytes a) = 28"
  by (simp_all add: layout_simps ether_arp_wf_def)

lemma iphdr_of_bytes_bytes [simp]: "iphdr_of_bytes (iphdr_bytes h @ rest) = h"
  by (simp add: layout_simps)

lemma iphdr_bytes_of_bytes [simp]: "length m = 20 \<Longrightarrow> iphdr_bytes (iphdr_of_bytes m) = m"
  by (simp add: layout_simps codec_simps take_drop_glue)

lemma bit_flag_byte:
  "bit (flag_byte h) n \<longleftrightarrow>
     n < 8 \<and> [fin h, syn h, rst h, psh h, ack h, urg h, bit (res2 h) 0, bit (res2 h) 1] ! n"
  by (auto simp: flag_byte_def bit_horner_sum_bit_iff simp del: horner_sum_simps)

lemma flag_byte_fields [simp]:
  "bit (flag_byte h) 0 = fin h" "bit (flag_byte h) (Suc 0) = syn h" "bit (flag_byte h) 2 = rst h"
  "bit (flag_byte h) 3 = psh h" "bit (flag_byte h) 4 = ack h" "bit (flag_byte h) 5 = urg h"
  by (simp_all add: bit_flag_byte)

lemma flag_byte_res2 [simp]: "ucast (drop_bit 6 (flag_byte h)) = res2 h"
proof (rule bit_word_eqI)
  fix n assume "n < LENGTH(2)"
  then have "n = 0 \<or> n = 1" by auto
  then show "bit (ucast (drop_bit 6 (flag_byte h)) :: 2 word) n = bit (res2 h) n"
    by (auto simp: bit_simps bit_flag_byte)
qed

lemma tcphdr_of_bytes_bytes [simp]: "tcphdr_of_bytes (tcphdr_bytes h @ rest) = h"
  by (simp add: layout_simps Let_def)

lemma flag_byte_tcphdr_of_bytes:
  "flag_byte (tcphdr_of_bytes m) = word_of_bytes (take 1 (drop 13 m))"
proof (rule bit_word_eqI)
  fix n assume "n < LENGTH(8)"
  then have "n \<in> {0, 1, 2, 3, 4, 5, 6, 7}" by auto
  then show "bit (flag_byte (tcphdr_of_bytes m)) n = bit (word_of_bytes (take 1 (drop 13 m)) :: u8) n"
    by (auto simp: bit_flag_byte tcphdr_of_bytes_def Let_def bit_simps)
qed

lemma tcphdr_bytes_of_bytes [simp]:
  "length m = 20 \<Longrightarrow> tcphdr_bytes (tcphdr_of_bytes m) = m"
  by (simp add: tcphdr_bytes_def flag_byte_tcphdr_of_bytes)
    (simp add: tcphdr_of_bytes_def Let_def codec_simps take_drop_glue)

lemma ether_arp_of_bytes_bytes [simp]:
  "ether_arp_wf a \<Longrightarrow> ether_arp_of_bytes (ether_arp_bytes a @ rest) = a"
  by (simp add: layout_simps ether_arp_wf_def)

lemma ether_arp_bytes_of_bytes: "length m = 28 \<Longrightarrow> ether_arp_bytes (ether_arp_of_bytes m) = m"
  by (simp add: layout_simps codec_simps take_drop_glue)

lemma ether_arp_of_bytes_wf: "28 \<le> length m \<Longrightarrow> ether_arp_wf (ether_arp_of_bytes m)"
  by (simp add: layout_simps ether_arp_wf_def)

interpretation iphdr_layout: struct_layout iphdr_bytes iphdr_of_bytes 20 "\<lambda>_. True"
  by unfold_locales simp_all

interpretation tcphdr_layout: struct_layout tcphdr_bytes tcphdr_of_bytes 20 "\<lambda>_. True"
  by unfold_locales simp_all

interpretation ether_arp_layout: struct_layout ether_arp_bytes ether_arp_of_bytes 28 ether_arp_wf
  by unfold_locales (simp_all add: ether_arp_bytes_of_bytes ether_arp_of_bytes_wf)

end
