(* ===== verification/Host.thy ===== *)
theory Host
  imports Netinet
begin

text \<open>
  The host a simulation runs on, as far as the sources use it.

  \<^item> \<open>cfile\<close>: a C stream. \<open>fread\<close> reads at the position and sets the end-of-file indicator on
    a short read; once the indicator is set a further \<open>fread\<close> reads nothing, as the C standard
    says. \<open>fwrite\<close> is that of a stream opened for appending: it writes at the end and leaves the
    position there, and writes less than asked when the disk has no more room.
  \<^item> \<open>event\<close>: what the program does to the outside: a \<open>printf\<close> (its format without the final
    line break, and its integer arguments or its string argument), a call of a function exported
    by the simulator.
  \<^item> \<open>world\<close>: the events so far, and the life of the object that the global \<open>sim_backend\<close> points
    to. \<open>finish_simulation\<close> of \<^verbatim>\<open>src/sim_dpi/sim_network_side_queue.cpp\<close> deletes it.
  \<^item> \<open>sysenv\<close>: what one call takes from its surroundings: the garbage in an uninitialised stack
    buffer, the time of day, and the order in which the hash table is iterated.
\<close>

section \<open>Streams\<close>

record cfile =
  contents :: mem
  fpos :: nat
  feof :: bool
  room :: nat

definition fread :: "nat \<Rightarrow> cfile \<Rightarrow> mem \<times> cfile" where
  "fread n f =
     (if n = 0 \<or> feof f then ([], f)
      else let bs = take n (drop (fpos f) (contents f))
           in (bs, f\<lparr>fpos := fpos f + length bs, feof := length bs < n\<rparr>))"

definition fwrite :: "mem \<Rightarrow> cfile \<Rightarrow> nat \<times> cfile" where
  "fwrite bs f =
     (let k = min (length bs) (room f)
      in if k = 0 then (0, f)
         else (k, f\<lparr>contents := contents f @ take k bs, fpos := length (contents f) + k,
                    room := room f - k\<rparr>))"

text \<open>\<open>fopen\<close> is the operating system's: a parameter, \<open>None\<close> where it returns \<open>NULL\<close>.\<close>

type_synonym fopen = "string \<Rightarrow> string \<Rightarrow> cfile option"

section \<open>Events and the world\<close>

datatype event =
    Print string "int list"
  | PrintS string string
  | DriveRx bool mem bool int
  | WriteFlowidLookup "u32 list" int int
  | FinishFromC

datatype lifetime = NullPtr | Alive | Dead

record world =
  backend_life :: lifetime
  out :: "event list"

definition emit :: "event \<Rightarrow> world \<Rightarrow> world" where
  "emit e w = w\<lparr>out := out w @ [e]\<rparr>"

definition say_str :: "string \<Rightarrow> string \<Rightarrow> world \<Rightarrow> world" where
  "say_str fmt arg = emit (PrintS fmt arg)"

definition say :: "string \<Rightarrow> int list \<Rightarrow> world \<Rightarrow> world" where
  "say fmt args = emit (Print fmt args)"

text \<open>
  \<open>delete sim_backend\<close> does nothing on a null pointer, ends the life of a live object, and is
  undefined on a pointer to a dead one. The pointer is not reset.
\<close>

definition finish_simulation :: "world \<Rightarrow> world res" where
  "finish_simulation w =
     (case backend_life w of
        NullPtr \<Rightarrow> Inr (emit FinishFromC w)
      | Alive \<Rightarrow> Inr (emit FinishFromC (w\<lparr>backend_life := Dead\<rparr>))
      | Dead \<Rightarrow> Inl DoubleFree)"

text \<open>An access to a member of the object.\<close>

definition alive :: "world \<Rightarrow> unit res" where
  "alive w = (if backend_life w = Dead then Inl UseAfterFree else Inr ())"

record sysenv =
  stack_garbage :: mem
  tod_sec :: u64
  tod_usec :: u64
  key_order :: "TCPFlowTuple list \<Rightarrow> TCPFlowTuple list"

definition sysenv_wf :: "sysenv \<Rightarrow> bool" where
  "sysenv_wf env \<longleftrightarrow> length (stack_garbage env) = 2048"

section \<open>Lemmas\<close>

lemma backend_life_say [simp]: "backend_life (say fmt args w) = backend_life w"
  by (simp add: say_def emit_def)

lemma say_str_simps [simp]:
  "backend_life (say_str fmt arg w) = backend_life w" "out (say_str fmt arg w) = out w @ [PrintS fmt arg]"
  by (simp_all add: say_str_def emit_def)

lemma backend_life_emit [simp]: "backend_life (emit e w) = backend_life w"
  by (simp add: emit_def)

lemma out_say [simp]: "out (say fmt args w) = out w @ [Print fmt args]"
  by (simp add: say_def emit_def)

lemma out_emit [simp]: "out (emit e w) = out w @ [e]"
  by (simp add: emit_def)

lemma alive_Alive [simp]: "backend_life w \<noteq> Dead \<Longrightarrow> alive w = Inr ()"
  by (simp add: alive_def)

lemma alive_Dead [simp]: "backend_life w = Dead \<Longrightarrow> alive w = Inl UseAfterFree"
  by (simp add: alive_def)

lemma finish_simulation_Alive [simp]:
  "backend_life w = Alive \<Longrightarrow>
     finish_simulation w = Inr (emit FinishFromC (w\<lparr>backend_life := Dead\<rparr>))"
  by (simp add: finish_simulation_def)

text \<open>A stream that still holds the wanted bytes delivers exactly them.\<close>

lemma fread_available:
  assumes "\<not> feof f" "0 < n" "contents f = pre @ bs @ post" "fpos f = length pre" "length bs = n"
  shows "fread n f = (bs, f\<lparr>fpos := length pre + n, feof := False\<rparr>)"
  using assms by (simp add: fread_def Let_def)

lemma fread_at_end:
  assumes "fpos f = length (contents f)"
  shows "fst (fread n f) = []"
  using assms by (simp add: fread_def Let_def)

lemma fread_contents [simp]: "contents (snd (fread n f)) = contents f"
  by (simp add: fread_def Let_def)

lemma fread_length: "length (fst (fread n f)) \<le> n"
  by (simp add: fread_def Let_def)

lemma fread_fpos: "fpos (snd (fread n f)) = fpos f + length (fst (fread n f))"
  by (simp add: fread_def Let_def)

lemma fread_bounded: "fpos f \<le> length (contents f) \<Longrightarrow> fpos (snd (fread n f)) \<le> length (contents f)"
  by (auto simp: fread_def Let_def)

lemma fread_sticky: "feof f \<Longrightarrow> fread n f = ([], f)"
  by (simp add: fread_def)

lemma fwrite_le: "fwrite bs f = (k, f') \<Longrightarrow> k \<le> length bs"
  by (auto simp: fwrite_def Let_def split: if_splits)

lemma fwrite_room:
  assumes "length bs \<le> room f" "bs \<noteq> []"
  shows "fwrite bs f = (length bs, f\<lparr>contents := contents f @ bs,
    fpos := length (contents f) + length bs, room := room f - length bs\<rparr>)"
  using assms by (simp add: fwrite_def Let_def min_def)

end
