(* ===== verification/Pcap_Helpers.thy ===== *)
theory Pcap_Helpers
  imports Host
begin

text \<open>
  The capture file reader and writer of \<^verbatim>\<open>src/sim_dpi/pcap_helpers.cpp\<close>: the file header, and
  records of a sixteen-byte packet header and the packet. Shown: what is written reads back,
  which files the reader accepts, and that reading a record always advances or stops.
\<close>

section \<open>Data\<close>

record pcap_file_header =
  magic_number :: u32
  version_major :: u16
  version_minor :: u16
  thiszone :: u32
  sigfigs :: u32
  snaplen :: u32
  network :: u32

record pcap_pkthdr =
  ts_sec :: u32
  ts_usec :: u32
  caplen :: u32
  len :: u32

definition pcap_pkthdr_bytes :: "pcap_pkthdr \<Rightarrow> mem" where
  "pcap_pkthdr_bytes h =
     bytes_of 4 (ts_sec h) @ bytes_of 4 (ts_usec h) @ bytes_of 4 (caplen h) @ bytes_of 4 (len h)"

definition pcap_pkthdr_of_bytes :: "mem \<Rightarrow> pcap_pkthdr" where
  "pcap_pkthdr_of_bytes m =
     \<lparr>ts_sec = word_of_bytes (take 4 m), ts_usec = word_of_bytes (take 4 (drop 4 m)),
      caplen = word_of_bytes (take 4 (drop 8 m)), len = word_of_bytes (take 4 (drop 12 m))\<rparr>"

section \<open>Operations\<close>

text \<open>
  One \<open>fread(&field, sizeof(field), 1, f)\<close> per field; the first that does not deliver the
  whole field makes the function return -1. The values are not looked at.
\<close>

fun consume_fields :: "nat list \<Rightarrow> cfile \<Rightarrow> int \<times> cfile" where
  "consume_fields [] f = (0, f)"
| "consume_fields (n # ns) f =
     (let (bs, f) = fread n f
      in if length bs < n then (-1, f) else consume_fields ns f)"

definition consumePCAPHeader :: "cfile \<Rightarrow> int \<times> cfile" where
  "consumePCAPHeader f = consume_fields [4, 2, 2, 4, 4, 4, 4] f"

definition pcap_header :: pcap_file_header where
  "pcap_header =
     \<lparr>magic_number = 0xa1b2c3d4, version_major = 2, version_minor = 4, thiszone = 0,
      sigfigs = 0, snaplen = 65535, network = 1\<rparr>"

definition writePCAPHeader :: "cfile \<Rightarrow> cfile" where
  "writePCAPHeader f =
     (let hdr = pcap_header;
          f = snd (fwrite (bytes_of 4 (magic_number hdr)) f);
          f = snd (fwrite (bytes_of 2 (version_major hdr)) f);
          f = snd (fwrite (bytes_of 2 (version_minor hdr)) f);
          f = snd (fwrite (bytes_of 4 (thiszone hdr)) f);
          f = snd (fwrite (bytes_of 4 (sigfigs hdr)) f);
          f = snd (fwrite (bytes_of 4 (snaplen hdr)) f)
      in snd (fwrite (bytes_of 4 (network hdr)) f))"

text \<open>
  \<open>buffer\<close> is the caller's array with its present contents. After a short read of the packet
  header the field \<open>len\<close> is indeterminate and is used all the same. \<open>fread\<close> is told to store
  \<open>len\<close> bytes whatever the size of the array, and the number of bytes it stored goes through the
  \<open>int\<close> variable \<open>read_len\<close>; for the comparison with \<open>len\<close> it is converted to unsigned.
\<close>

definition read_pcap_record :: "cfile \<Rightarrow> mem \<Rightarrow> world \<Rightarrow> (int \<times> mem \<times> cfile \<times> world) res" where
  "read_pcap_record pcap_file buffer w =
     (let (hb, pcap_file) = fread 16 pcap_file in
      if length hb = 0 then Inr (0, buffer, pcap_file, w)
      else if length hb \<noteq> 16 then Inl Uninitialised
      else
        let l = len (pcap_pkthdr_of_bytes hb);
            w = say ''Packet len is %d'' [sint l] w;
            (bs, pcap_file) = fread (unat l) pcap_file;
            read_len = int_of_size (length bs)
        in if length buffer < length bs then Inl OutOfBounds
           else
             let w = (if (word_of_int read_len :: u32) \<noteq> l
                      then say ''Error reading pcap packet capture'' [] w else w)
             in Inr (read_len, bs @ drop (length bs) buffer, pcap_file, w))"

definition write_pcap_record ::
  "sysenv \<Rightarrow> cfile \<Rightarrow> mem \<Rightarrow> u32 \<Rightarrow> world \<Rightarrow> (int \<times> cfile \<times> world) res" where
  "write_pcap_record env pcap_file buffer buffer_len w =
     (let total_packet_len = buffer_len;
          hdr = \<lparr>ts_sec = ucast (tod_sec env), ts_usec = ucast (tod_usec env),
                 caplen = total_packet_len, len = total_packet_len\<rparr>;
          (n, pcap_file) = fwrite (pcap_pkthdr_bytes hdr) pcap_file;
          write_len = int_of_size n;
          w = (if write_len \<noteq> 16 then say ''Error writing pcap packet header'' [] w else w)
      in
      bindE (load_bytes (unat total_packet_len) buffer 0) (\<lambda>bs.
      let (n, pcap_file) = fwrite bs pcap_file;
          write_len = int_of_size n;
          w = (if (word_of_int write_len :: u32) \<noteq> total_packet_len
               then say ''Error writing pcap packet capture'' [] w else w)
      in Inr (write_len, pcap_file, w)))"

section \<open>Layout\<close>

lemma length_pcap_pkthdr_bytes [simp]: "length (pcap_pkthdr_bytes h) = 16"
  by (simp add: pcap_pkthdr_bytes_def)

lemma pcap_pkthdr_bytes_nonempty [simp]: "pcap_pkthdr_bytes h \<noteq> []"
  using length_pcap_pkthdr_bytes [of h] by (metis list.size(3) zero_neq_numeral)

interpretation pcap_pkthdr_layout: struct_layout pcap_pkthdr_bytes pcap_pkthdr_of_bytes 16 "\<lambda>_. True"
  by unfold_locales
    (simp_all add: pcap_pkthdr_bytes_def pcap_pkthdr_of_bytes_def codec_simps take_drop_glue)

lemmas pcap_pkthdr_of_bytes_bytes [simp] = pcap_pkthdr_layout.dec_enc_only [OF TrueI]

definition pcap_header_bytes :: mem where
  "pcap_header_bytes =
     [0xd4, 0xc3, 0xb2, 0xa1, 2, 0, 4, 0, 0, 0, 0, 0, 0, 0, 0, 0, 0xff, 0xff, 0, 0, 1, 0, 0, 0]"

definition record_bytes :: "u32 \<Rightarrow> u32 \<Rightarrow> mem \<Rightarrow> mem" where
  "record_bytes sec usec pkt =
     pcap_pkthdr_bytes \<lparr>ts_sec = sec, ts_usec = usec, caplen = of_nat (length pkt),
       len = of_nat (length pkt)\<rparr> @ pkt"

lemma length_record_bytes [simp]: "length (record_bytes sec usec pkt) = 16 + length pkt"
  by (simp add: record_bytes_def)

section \<open>The file header\<close>

lemma consume_fields_ok:
  "\<not> feof f \<Longrightarrow> \<forall>n \<in> set ns. 0 < n \<Longrightarrow> fpos f + sum_list ns \<le> length (contents f) \<Longrightarrow>
   consume_fields ns f = (0, f\<lparr>fpos := fpos f + sum_list ns, feof := False\<rparr>)"
proof (induction ns arbitrary: f)
  case Nil
  then show ?case by simp
next
  case (Cons n ns)
  then have "fread n f = (take n (drop (fpos f) (contents f)), f\<lparr>fpos := fpos f + n, feof := False\<rparr>)"
    by (simp add: fread_def Let_def min_def)
  with Cons show ?case by (simp add: add.assoc)
qed

lemma consume_fields_short:
  "\<not> feof f \<Longrightarrow> \<forall>n \<in> set ns. 0 < n \<Longrightarrow> length (contents f) < fpos f + sum_list ns \<Longrightarrow>
   fst (consume_fields ns f) = (if ns = [] then 0 else -1)"
proof (induction ns arbitrary: f)
  case Nil
  then show ?case by simp
next
  case (Cons n ns)
  show ?case
  proof (cases "fpos f + n \<le> length (contents f)")
    case True
    with Cons.prems have r: "fread n f = (take n (drop (fpos f) (contents f)), f\<lparr>fpos := fpos f + n, feof := False\<rparr>)"
      by (simp add: fread_def Let_def min_def)
    from True Cons.prems have "ns \<noteq> []" by auto
    moreover have "fst (consume_fields ns (f\<lparr>fpos := fpos f + n, feof := False\<rparr>)) =
        (if ns = [] then 0 else -1)"
      using Cons.prems by (intro Cons.IH) auto
    ultimately show ?thesis using True r by simp
  next
    case False
    with Cons.prems have "length (contents f) - fpos f < n" by auto
    with Cons.prems show ?thesis by (simp add: fread_def Let_def)
  qed
qed

text \<open>
  C20: \<open>consumePCAPHeader\<close> returns 0 exactly for a stream with at least 24 more bytes, and then
  leaves the stream right behind them; otherwise it returns -1.
\<close>

theorem consumePCAPHeader_result:
  assumes "\<not> feof f" "fpos f \<le> length (contents f)"
  shows "fst (consumePCAPHeader f) = (if fpos f + 24 \<le> length (contents f) then 0 else -1) \<and>
    (fpos f + 24 \<le> length (contents f) \<longrightarrow> snd (consumePCAPHeader f) = f\<lparr>fpos := fpos f + 24, feof := False\<rparr>)"
  using assms consume_fields_ok [of f "[4, 2, 2, 4, 4, 4, 4]"]
    consume_fields_short [of f "[4, 2, 2, 4, 4, 4, 4]"]
  by (auto simp: consumePCAPHeader_def not_le)

theorem consumePCAPHeader_result_witness:
  "fst (consumePCAPHeader \<lparr>contents = pcap_header_bytes, fpos = 0, feof = False, room = 0\<rparr>) = 0"
  using consumePCAPHeader_result
    [of "\<lparr>contents = pcap_header_bytes, fpos = 0, feof = False, room = 0\<rparr>"]
  by (simp add: pcap_header_bytes_def)

text \<open>The header that is written is the 24 bytes of a little-endian Ethernet capture.\<close>

lemma pcap_header_fields:
  "bytes_of 4 (magic_number pcap_header) @ bytes_of 2 (version_major pcap_header) @
   bytes_of 2 (version_minor pcap_header) @ bytes_of 4 (thiszone pcap_header) @
   bytes_of 4 (sigfigs pcap_header) @ bytes_of 4 (snaplen pcap_header) @
   bytes_of 4 (network pcap_header) = pcap_header_bytes"
  by code_simp

lemma fwrite_snd:
  assumes "length bs \<le> room f" "bs \<noteq> []"
  shows "snd (fwrite bs f) = f\<lparr>contents := contents f @ bs,
    fpos := length (contents f) + length bs, room := room f - length bs\<rparr>"
  using fwrite_room [OF assms] by simp

lemma bytes_of_nonempty [simp]: "bytes_of k w = [] \<longleftrightarrow> k = 0"
  using length_bytes_of [of k w] by (metis length_0_conv)

lemma writePCAPHeader_appends:
  assumes "24 \<le> room f"
  shows "writePCAPHeader f = f\<lparr>contents := contents f @ pcap_header_bytes,
    fpos := length (contents f) + 24, room := room f - 24\<rparr>"
  using assms
  by (simp add: writePCAPHeader_def Let_def fwrite_snd flip: pcap_header_fields)

section \<open>Records\<close>

text \<open>A complete record at the position of the stream is delivered, and the stream moves past it.\<close>

lemma read_pcap_record_reads:
  assumes f: "\<not> feof f" "contents f = pre @ record_bytes sec usec pkt @ post" "fpos f = length pre"
    and pkt: "length pkt < 2 ^ 32" "pkt \<noteq> []"
  shows "read_pcap_record f buffer w =
    (if length buffer < length pkt then Inl OutOfBounds
     else Inr (int_of_size (length pkt), pkt @ drop (length pkt) buffer,
      f\<lparr>fpos := length pre + 16 + length pkt, feof := False\<rparr>,
      say ''Packet len is %d'' [sint (of_nat (length pkt) :: u32)] w))"
proof -
  let ?h = "\<lparr>ts_sec = sec, ts_usec = usec, caplen = of_nat (length pkt), len = of_nat (length pkt)\<rparr>"
  let ?f1 = "f\<lparr>fpos := length pre + 16, feof := False\<rparr>"
  have r1: "fread 16 f = (pcap_pkthdr_bytes ?h, ?f1)"
    by (rule fread_available [of f 16 pre _ "pkt @ post"]) (use f in \<open>simp_all add: record_bytes_def\<close>)
  have l: "unat (of_nat (length pkt) :: u32) = length pkt" using pkt by (simp add: unat_of_nat)
  have r2: "fread (length pkt) ?f1 = (pkt, ?f1\<lparr>fpos := length pre + 16 + length pkt, feof := False\<rparr>)"
    using fread_available [of ?f1 "length pkt" "pre @ pcap_pkthdr_bytes ?h" pkt post] f pkt
    by (simp add: record_bytes_def)
  show ?thesis using pkt by (simp add: read_pcap_record_def r1 l r2 Let_def)
qed

lemma read_pcap_record_at_end:
  assumes "fpos f = length (contents f)"
  shows "\<exists>f'. read_pcap_record f buffer w = Inr (0, buffer, f', w)"
  using fread_at_end [OF assms, of 16]
  by (cases "fread 16 f") (simp add: read_pcap_record_def)

text \<open>Reading a non-empty record consumes at least seventeen bytes of the stream.\<close>

lemma read_pcap_record_advances:
  assumes "read_pcap_record f buffer w = Inr (n, buffer', f', w')" "0 < n"
  shows "contents f' = contents f \<and> fpos f + 16 + nat n = fpos f' \<and> fpos f' \<le> length (contents f) \<and>
    length buffer' = length buffer"
proof -
  obtain hb f1 where r1: "fread 16 f = (hb, f1)" by force
  obtain bs f2 where r2: "fread (unat (len (pcap_pkthdr_of_bytes hb))) f1 = (bs, f2)" by force
  from assms r1 r2 have e: "length hb = 16" "n = int_of_size (length bs)" "f' = f2" "length bs \<le> length buffer"
      "buffer' = bs @ drop (length bs) buffer"
    by (auto simp: read_pcap_record_def Let_def split: if_splits)
  have "length bs \<le> unat (len (pcap_pkthdr_of_bytes hb))" using fread_length r2 by (metis fst_conv)
  moreover have "unat (len (pcap_pkthdr_of_bytes hb)) < 2 ^ LENGTH(32)" by (rule unsigned_less)
  ultimately have "length bs < 2 ^ 32" by simp
  with int_of_size_pos assms(2) e have eq: "length hb = 16" "n = int (length bs)" "f' = f2"
      "length bs \<le> length buffer" "buffer' = bs @ drop (length bs) buffer"
    by simp_all
  have c: "contents f1 = contents f" "contents f2 = contents f1" "fpos f1 = fpos f + 16"
    "fpos f2 = fpos f1 + length bs"
    using fread_contents [of 16 f] fread_contents [of _ f1] fread_fpos [of 16 f] fread_fpos [of _ f1] r1 r2 eq
    by (metis fst_conv snd_conv)+
  have "fpos f1 + length bs \<le> length (contents f1)"
    using r2 eq assms(2) by (auto simp: fread_def Let_def split: if_splits)
  with c eq show ?thesis by simp
qed

text \<open>
  C19: a packet of fewer than 2^31 bytes written with \<open>write_pcap_record\<close> is read back unchanged by
  \<open>read_pcap_record\<close> from a stream on the same file positioned where the writer's file ended, for
  every packet that fits the reader's buffer; both return its size, and the reader ends at the end
  of the file. From 2^31 on the returned \<open>int\<close> is no longer the size.
\<close>

theorem pcap_record_roundtrip:
  assumes pkt: "pkt \<noteq> []" "length pkt \<le> length buffer" "length pkt < 2 ^ 31"
    and room: "16 + length pkt \<le> room f"
    and r: "\<not> feof r" "fpos r = length (contents f)"
  shows "\<exists>f' r'. write_pcap_record env f pkt (of_nat (length pkt)) w = Inr (int (length pkt), f', w) \<and>
    read_pcap_record (r\<lparr>contents := contents f'\<rparr>) buffer w' =
      Inr (int (length pkt), pkt @ drop (length pkt) buffer, r',
           say ''Packet len is %d'' [sint (of_nat (length pkt) :: u32)] w') \<and>
    fpos r' = length (contents f')"
proof -
  let ?rec = "record_bytes (ucast (tod_sec env)) (ucast (tod_usec env)) pkt"
  let ?f' = "f\<lparr>contents := contents f @ ?rec, fpos := length (contents f) + 16 + length pkt,
    room := room f - 16 - length pkt\<rparr>"
  have l: "unat (of_nat (length pkt) :: u32) = length pkt" using pkt by (simp add: unat_of_nat)
  have w: "write_pcap_record env f pkt (of_nat (length pkt)) w = Inr (int (length pkt), ?f', w)"
    using pkt room
    by (simp add: write_pcap_record_def Let_def fwrite_room l load_bytes_def record_bytes_def)
  have "read_pcap_record (r\<lparr>contents := contents ?f'\<rparr>) buffer w' =
      Inr (int (length pkt), pkt @ drop (length pkt) buffer,
        (r\<lparr>contents := contents ?f'\<rparr>)\<lparr>fpos := length (contents f) + 16 + length pkt, feof := False\<rparr>,
        say ''Packet len is %d'' [sint (of_nat (length pkt) :: u32)] w')"
    using r pkt read_pcap_record_reads [of "r\<lparr>contents := contents ?f'\<rparr>" "contents f"
        "ucast (tod_sec env)" "ucast (tod_usec env)" pkt "[]" buffer w']
    by simp
  with w show ?thesis by (intro exI conjI) (assumption | simp)+
qed

theorem pcap_record_roundtrip_witness:
  "\<exists>f' r'. write_pcap_record
      \<lparr>stack_garbage = [], tod_sec = 1, tod_usec = 2, key_order = id\<rparr>
      \<lparr>contents = [], fpos = 0, feof = False, room = 100\<rparr> [1, 2, 3] 3
      \<lparr>backend_life = NullPtr, out = []\<rparr> = Inr (3, f', \<lparr>backend_life = NullPtr, out = []\<rparr>) \<and>
    read_pcap_record (\<lparr>contents = [], fpos = 0, feof = False, room = 0\<rparr>\<lparr>contents := contents f'\<rparr>)
      [9, 9, 9, 9] \<lparr>backend_life = NullPtr, out = []\<rparr> =
      Inr (3, [1, 2, 3, 9], r', say ''Packet len is %d'' [3] \<lparr>backend_life = NullPtr, out = []\<rparr>)"
  using pcap_record_roundtrip
    [of "[1, 2, 3]" "[9, 9, 9, 9]" "\<lparr>contents = [], fpos = 0, feof = False, room = 100\<rparr>"
      "\<lparr>contents = [], fpos = 0, feof = False, room = 0\<rparr>"
      "\<lparr>stack_garbage = [], tod_sec = 1, tod_usec = 2, key_order = id\<rparr>"
      "\<lparr>backend_life = NullPtr, out = []\<rparr>" "\<lparr>backend_life = NullPtr, out = []\<rparr>"]
  by auto

text \<open>
  C37: a record whose packet header announces more bytes than the reader's array holds, and that
  really has them, overruns the array: the announced length is not checked against its size.
\<close>

theorem read_pcap_record_overrun:
  assumes "\<not> feof f" "contents f = pre @ record_bytes sec usec pkt @ post" "fpos f = length pre"
    and "length buffer < length pkt" "length pkt < 2 ^ 32"
  shows "read_pcap_record f buffer w = Inl OutOfBounds"
proof -
  have "pkt \<noteq> []" using assms by auto
  with assms show ?thesis by (simp add: read_pcap_record_reads)
qed

theorem read_pcap_record_overrun_witness:
  "read_pcap_record \<lparr>contents = record_bytes 0 0 [1, 2, 3], fpos = 0, feof = False, room = 0\<rparr> [9, 9]
     \<lparr>backend_life = NullPtr, out = []\<rparr> = Inl OutOfBounds"
  by (rule read_pcap_record_overrun [of _ "[]" 0 0 "[1, 2, 3]" "[]"]) simp_all

section \<open>Streams of records\<close>

fun trace_bytes :: "(u32 \<times> u32) list \<Rightarrow> mem list \<Rightarrow> mem" where
  "trace_bytes ((sec, usec) # ts) (p # ps) = record_bytes sec usec p @ trace_bytes ts ps"
| "trace_bytes _ _ = []"

text \<open>The stream is positioned before the complete records of exactly these packets.\<close>

definition file_holds :: "cfile \<Rightarrow> mem list \<Rightarrow> bool" where
  "file_holds f ps \<longleftrightarrow> (\<exists>pre ts. length ts = length ps \<and> contents f = pre @ trace_bytes ts ps \<and>
     fpos f = length pre \<and> (ps = [] \<or> \<not> feof f))"

lemma read_held_record:
  assumes "file_holds f (p # ps)" "p \<noteq> []" "length p \<le> length buffer" "length p < 2 ^ 31"
  shows "\<exists>f' w'. read_pcap_record f buffer w =
    Inr (int (length p), p @ drop (length p) buffer, f', w') \<and> file_holds f' ps"
proof -
  from assms(1) obtain pre sec usec ts where f: "length ts = length ps"
      "contents f = pre @ record_bytes sec usec p @ trace_bytes ts ps" "fpos f = length pre" "\<not> feof f"
    by (auto simp: file_holds_def length_Suc_conv)
  let ?f = "f\<lparr>fpos := length pre + 16 + length p, feof := False\<rparr>"
  have "file_holds ?f ps"
    unfolding file_holds_def
    by (rule exI [of _ "pre @ record_bytes sec usec p"], rule exI [of _ ts]) (use f in simp)
  with read_pcap_record_reads [OF f(4,2,3) _ assms(2), of buffer w] assms(3,4) show ?thesis by auto
qed

lemma read_held_nothing:
  assumes "file_holds f []"
  shows "\<exists>f'. read_pcap_record f buffer w = Inr (0, buffer, f', w) \<and> file_holds f' []"
proof -
  from assms have e: "fpos f = length (contents f)" by (auto simp: file_holds_def)
  obtain f' where r: "fread 16 f = ([], f')"
    using fread_at_end [OF e, of 16] by (metis prod.collapse)
  have "fpos f' = length (contents f')"
    using e fread_fpos [of 16 f] fread_contents [of 16 f] r by simp
  then have "file_holds f' []" by (auto simp: file_holds_def)
  with r show ?thesis by (simp add: read_pcap_record_def)
qed

text \<open>A capture file with a file header and the records of exactly these packets.\<close>

definition pcap_trace_file :: "cfile \<Rightarrow> mem list \<Rightarrow> bool" where
  "pcap_trace_file f ps \<longleftrightarrow> \<not> feof f \<and> fpos f = 0 \<and>
     (\<exists>hdr ts. length hdr = 24 \<and> length ts = length ps \<and> contents f = hdr @ trace_bytes ts ps)"

lemma consume_trace_file:
  assumes "pcap_trace_file f ps"
  shows "\<exists>g. consumePCAPHeader f = (0, g) \<and> file_holds g ps"
proof -
  from assms obtain hdr ts where f: "\<not> feof f" "fpos f = 0" "length hdr = 24"
      "length ts = length ps" "contents f = hdr @ trace_bytes ts ps"
    by (auto simp: pcap_trace_file_def)
  let ?f = "f\<lparr>fpos := 24, feof := False\<rparr>"
  have "file_holds ?f ps"
    unfolding file_holds_def by (rule exI [of _ hdr], rule exI [of _ ts]) (use f in simp)
  moreover have "consumePCAPHeader f = (0, ?f)"
    using consume_fields_ok [of f "[4, 2, 2, 4, 4, 4, 4]"] f by (simp add: consumePCAPHeader_def)
  ultimately show ?thesis by blast
qed

end
