(* ===== verification/DPI_Backend.thy ===== *)
theory DPI_Backend
  imports Pcap_Helpers
begin

text \<open>
  The abstract class \<open>DPITestingLib\<close> of \<^verbatim>\<open>src/sim_dpi/dpi_testing_lib.hpp\<close>: a backend gives the
  simulation packets (\<open>get_buf_fr_io\<close>) and takes the packets the hardware sends
  (\<open>put_buf_on_io\<close>). A virtual function is here a HOL function on the world and the object's
  own state; the contract that the network side relies on is the locale \<open>dpi_backend\<close>, which
  every backend of the development interprets.

  Two loops that the trace backends repeat are here as well: the comparison of a destination
  address with the simulation's own, and the comparison of two packets byte by byte.
\<close>

section \<open>The class\<close>

type_synonym 'b get_buf_fr_io = "sysenv \<Rightarrow> sock_state \<Rightarrow> world \<times> 'b \<Rightarrow> (mem \<times> world \<times> 'b) res"
type_synonym 'b put_buf_on_io = "sysenv \<Rightarrow> sock_state \<Rightarrow> mem \<Rightarrow> world \<times> 'b \<Rightarrow> (int \<times> world \<times> 'b) res"

text \<open>
  A run of a backend: the simulation asks for packets and hands over packets of the hardware in
  any order, each through the global pointer, so the object has to be alive. The result lists what
  each request was answered with.
\<close>

datatype io_op = GetOp sysenv | PutOp sysenv mem

fun io_run :: "'b get_buf_fr_io \<Rightarrow> 'b put_buf_on_io \<Rightarrow> sock_state \<Rightarrow> io_op list \<Rightarrow> world \<times> 'b \<Rightarrow>
    (mem list \<times> world \<times> 'b) res" where
  "io_run get put ss [] s = Inr ([], s)"
| "io_run get put ss (GetOp env # ops) s =
     bindE (alive (fst s)) (\<lambda>_.
     bindE (get env ss s) (\<lambda>(p, s).
     bindE (io_run get put ss ops s) (\<lambda>(ps, s). Inr (p # ps, s))))"
| "io_run get put ss (PutOp env pkt # ops) s =
     bindE (alive (fst s)) (\<lambda>_.
     bindE (put env ss pkt s) (\<lambda>(n, s). io_run get put ss ops s))"

section \<open>Shared loops\<close>

text \<open>
  \<open>for (i = 0; i < 6; i++) if (eth_frame->dst_addr[i] != source_mac_addr[i]) { ...; break; }\<close>
\<close>

fun mac_loop :: "mem \<Rightarrow> mem \<Rightarrow> nat list \<Rightarrow> bool res" where
  "mac_loop buffer mac [] = Inr True"
| "mac_loop buffer mac (i # is) =
     bindE (load 1 buffer i) (\<lambda>b.
     if b \<noteq> mac ! i then Inr False else mac_loop buffer mac is)"

definition is_our_mac :: "mem \<Rightarrow> sock_state \<Rightarrow> bool res" where
  "is_our_mac buffer ss = mac_loop buffer (source_mac_addr ss) [0, 1, 2, 3, 4, 5]"

text \<open>The byte comparison of two packets of the same size, from index \<open>i\<close> on.\<close>

fun compare_loop :: "nat \<Rightarrow> mem \<Rightarrow> mem \<Rightarrow> world \<Rightarrow> world" where
  "compare_loop i (r # rs) (t # ts) w =
     compare_loop (Suc i) rs ts
       (if r \<noteq> t
        then say ''recved pkt different at byte %d. Expected %hhx, Got %hhx'' [int i, uint r, uint t] w
        else w)"
| "compare_loop i _ _ w = w"

section \<open>The contract\<close>

definition is_drive :: "event \<Rightarrow> bool" where
  "is_drive e = (case e of DriveRx _ _ _ _ \<Rightarrow> True | _ \<Rightarrow> False)"

definition drives :: "world \<Rightarrow> event list" where
  "drives w = filter is_drive (out w)"

text \<open>
  What the network side relies on: an operation that returns keeps the backend's invariant,
  touches none of the signals driven into the simulator, only \<open>put_buf_on_io\<close> can end the
  simulation, and the \<open>int\<close> it returns is at most the size of the packet it was given, and not
  negative unless that size is too large for the type.
\<close>

locale dpi_backend =
  fixes get_io :: "'b get_buf_fr_io"
    and put_io :: "'b put_buf_on_io"
    and inv_io :: "'b \<Rightarrow> bool"
  assumes get_inv: "inv_io b \<Longrightarrow> get_io env ss (w, b) = Inr (pkt, w', b') \<Longrightarrow> inv_io b'"
    and put_inv: "inv_io b \<Longrightarrow> put_io env ss pkt (w, b) = Inr (n, w', b') \<Longrightarrow> inv_io b'"
    and get_drives: "get_io env ss (w, b) = Inr (pkt, w', b') \<Longrightarrow> drives w' = drives w"
    and put_drives: "put_io env ss pkt (w, b) = Inr (n, w', b') \<Longrightarrow> drives w' = drives w"
    and get_life: "get_io env ss (w, b) = Inr (pkt, w', b') \<Longrightarrow> backend_life w' = backend_life w"
    and put_life: "put_io env ss pkt (w, b) = Inr (n, w', b') \<Longrightarrow>
      backend_life w' = backend_life w \<or> backend_life w' = Dead"
    and put_size: "put_io env ss pkt (w, b) = Inr (n, w', b') \<Longrightarrow>
      n \<le> int (length pkt) \<and> (length pkt < 2 ^ 31 \<longrightarrow> 0 \<le> n)"
begin

lemma run_inv:
  "inv_io b \<Longrightarrow> io_run get_io put_io ss ops (w, b) = Inr (outs, w', b') \<Longrightarrow> inv_io b'"
proof (induction ops arbitrary: w b outs)
  case (Cons op ops)
  then show ?case by (cases op) (auto simp: res_simps dest!: get_inv [rotated] put_inv [rotated])
qed simp

lemma run_drives:
  "io_run get_io put_io ss ops (w, b) = Inr (outs, w', b') \<Longrightarrow> drives w' = drives w"
proof (induction ops arbitrary: w b outs)
  case (Cons op ops)
  then show ?case by (cases op) (fastforce simp: res_simps dest: get_drives put_drives)+
qed simp

text \<open>Requests alone never end the simulation.\<close>

lemma run_gets_life:
  "io_run get_io put_io ss (map GetOp envs) (w, b) = Inr (outs, w', b') \<Longrightarrow> backend_life w' = backend_life w"
proof (induction envs arbitrary: w b outs)
  case (Cons env envs)
  then show ?case by (fastforce simp: res_simps dest: get_life)
qed simp

end

section \<open>Lemmas\<close>

lemma drives_say [simp]: "drives (say fmt args w) = drives w"
  by (simp add: drives_def is_drive_def)

lemma drives_say_str [simp]: "drives (say_str fmt arg w) = drives w"
  by (simp add: drives_def is_drive_def)

lemma drives_finish [simp]: "drives (emit FinishFromC w) = drives w"
  by (simp add: drives_def is_drive_def)

lemma drives_life [simp]: "drives (w\<lparr>backend_life := l\<rparr>) = drives w"
  by (simp add: drives_def)

lemma drives_drive [simp]: "drives (emit (DriveRx v d l p) w) = drives w @ [DriveRx v d l p]"
  by (simp add: drives_def is_drive_def)

lemma finish_simulation_drives: "finish_simulation w = Inr w' \<Longrightarrow> drives w' = drives w"
  by (auto simp: finish_simulation_def split: lifetime.splits)

lemma finish_simulation_life:
  "finish_simulation w = Inr w' \<Longrightarrow> backend_life w' = backend_life w \<or> backend_life w' = Dead"
  by (auto simp: finish_simulation_def split: lifetime.splits)

lemma compare_loop_drives [simp]: "drives (compare_loop i rs ts w) = drives w"
  by (induction i rs ts w rule: compare_loop.induct) auto

lemma compare_loop_life [simp]: "backend_life (compare_loop i rs ts w) = backend_life w"
  by (induction i rs ts w rule: compare_loop.induct) auto

text \<open>The loop reports exactly the positions where the packets differ, in order.\<close>

lemma compare_loop_out:
  "length rs = length ts \<Longrightarrow>
   out (compare_loop i rs ts w) = out w @
     map (\<lambda>k. Print ''recved pkt different at byte %d. Expected %hhx, Got %hhx''
                [int (i + k), uint (rs ! k), uint (ts ! k)])
       (filter (\<lambda>k. rs ! k \<noteq> ts ! k) [0..<length rs])"
proof (induction i rs ts w rule: compare_loop.induct)
  case (1 i r rs t ts w)
  have "[0..<length (r # rs)] = 0 # map Suc [0..<length rs]"
    by (simp add: map_Suc_upt upt_conv_Cons del: upt_Suc)
  with 1 show ?case by (simp add: filter_map comp_def del: upt_Suc)
qed auto

text \<open>What that decides: whether the destination address is the simulated host's.\<close>

definition for_us :: "sock_state \<Rightarrow> mem \<Rightarrow> bool" where
  "for_us ss p \<longleftrightarrow> take 6 p = source_mac_addr ss"

lemma is_our_mac_iff:
  assumes "6 \<le> length buffer" "length (source_mac_addr ss) = 6"
  shows "is_our_mac buffer ss = Inr (for_us ss buffer)"
proof -
  obtain b0 b1 b2 b3 b4 b5 rest where b: "buffer = b0 # b1 # b2 # b3 # b4 # b5 # rest"
    using assms(1) by (auto simp: numeral_eq_Suc Suc_le_length_iff)
  obtain m0 m1 m2 m3 m4 m5 where m: "source_mac_addr ss = [m0, m1, m2, m3, m4, m5]"
    using assms(2) by (auto simp: numeral_eq_Suc length_Suc_conv)
  show ?thesis by (simp add: is_our_mac_def for_us_def b m load_byte)
qed

lemma read_pcap_record_frame:
  assumes "read_pcap_record f buffer w = Inr (n, buffer', f', w')"
  shows "drives w' = drives w \<and> backend_life w' = backend_life w \<and>
    length buffer' = length buffer \<and> nat n \<le> length buffer \<and> (length buffer < 2 ^ 31 \<longrightarrow> 0 \<le> n)"
proof -
  obtain hb f1 where r1: "fread 16 f = (hb, f1)" by force
  obtain bs f2 where r2: "fread (unat (len (pcap_pkthdr_of_bytes hb))) f1 = (bs, f2)" by force
  from assms r1 r2 have 1: "drives w' = drives w" "backend_life w' = backend_life w"
      "length buffer' = length buffer" "n = 0 \<or> n = int_of_size (length bs) \<and> length bs \<le> length buffer"
    by (auto simp: read_pcap_record_def Let_def split: if_splits)
  then have "nat n \<le> length buffer" using int_of_size_le [of "length bs"] by auto
  moreover have "length buffer < 2 ^ 31 \<longrightarrow> 0 \<le> n" using 1(4) by auto
  ultimately show ?thesis using 1 by simp
qed

section \<open>Example data\<close>

text \<open>A trace with one flow: its SYN and a data packet.\<close>

definition ex_pkt :: "u8 \<Rightarrow> mem" where
  "ex_pkt flags =
     [1, 2, 3, 4, 5, 6, 9, 9, 9, 9, 9, 9, 8, 0,
      0x45, 0, 0, 40, 0, 0, 0, 0, 64, 6, 0, 0, 10, 0, 0, 1, 10, 0, 0, 2,
      0, 80, 0, 90, 0, 0, 0, 7, 0, 0, 0, 0, 0x50, flags, 0, 0, 0, 0, 0, 0]"

definition ex_ss :: sock_state where
  "ex_ss = \<lparr>send_sock = 0, recv_sock = 0,
     source_addr = \<lparr>sin_family = 2, sin_port = 0, s_addr = 0\<rparr>,
     dest_addr = \<lparr>sin_family = 2, sin_port = 0, s_addr = 0\<rparr>,
     source_mac_addr = [1, 2, 3, 4, 5, 6], dest_mac_addr = [9, 9, 9, 9, 9, 9],
     has_syn_acked = 0, init_ack_num = 0\<rparr>"

definition ex_env :: sysenv where
  "ex_env = \<lparr>stack_garbage = replicate 2048 0x45, tod_sec = 0, tod_usec = 0, key_order = id\<rparr>"

definition ex_file :: cfile where
  "ex_file = \<lparr>contents = pcap_header_bytes @ trace_bytes [(0, 0), (1, 0)] [ex_pkt TCP_SYN, ex_pkt TCP_ACK],
     fpos = 0, feof = False, room = 0\<rparr>"

lemma ex_wf: "sock_state_wf ex_ss" "sysenv_wf ex_env" "pcap_trace_file ex_file [ex_pkt TCP_SYN, ex_pkt TCP_ACK]"
proof -
  show "sock_state_wf ex_ss" by (simp add: sock_state_wf_def ex_ss_def)
  show "sysenv_wf ex_env" by (simp add: sysenv_wf_def ex_env_def)
  have "length pcap_header_bytes = 24" by (simp add: pcap_header_bytes_def)
  then show "pcap_trace_file ex_file [ex_pkt TCP_SYN, ex_pkt TCP_ACK]"
    unfolding pcap_trace_file_def ex_file_def
    by (auto intro!: exI [of _ pcap_header_bytes] exI [of _ "[(0, 0), (1, 0)]"])
qed

lemma length_ex_pkt [simp]: "length (ex_pkt fl) = 54"
  by (simp add: ex_pkt_def)

end
