(* ===== verification/ARP.thy ===== *)
theory ARP
  imports DPI_Backend
begin

text \<open>
  The address resolution responder \<open>handle_arp\<close> of \<^verbatim>\<open>src/sim_dpi/testing_utils.cpp\<close>. It answers
  a request for the simulated host's IP address through the backend it is given, and remembers
  the requester's hardware address.

  \<open>arp_req\<close> is the memory from the ARP header to the end of the frame; each field that the code
  touches is a bounds-checked load.
\<close>

section \<open>The code\<close>

definition arp_reply :: "sock_state \<Rightarrow> mem \<Rightarrow> mem \<Rightarrow> mem" where
  "arp_reply state sha spa =
     ether_header_bytes \<lparr>ether_dhost = sha, ether_shost = source_mac_addr state,
       ether_type = htons ETHERTYPE_ARP\<rparr> @
     ether_arp_bytes \<lparr>ar_hrd = htons ARPHRD_ETHER, ar_pro = htons ETHERTYPE_IP, ar_hln = 6, ar_pln = 4,
       ar_op = htons ARPOP_REPLY, arp_sha = source_mac_addr state,
       arp_spa = bytes_of 4 (s_addr (source_addr state)), arp_tha = sha, arp_tpa = spa\<rparr>"

definition handle_arp ::
  "'b put_buf_on_io \<Rightarrow> sysenv \<Rightarrow> sock_state \<Rightarrow> mem \<Rightarrow> world \<times> 'b \<Rightarrow> (sock_state \<times> world \<times> 'b) res" where
  "handle_arp put env state arp_req = (\<lambda>(w, b).
     bindE (load 2 arp_req 2) (\<lambda>pro :: u16.
     bindE (if ntohs pro \<noteq> ETHERTYPE_IP then Inr True
            else bindE (load 2 arp_req 6) (\<lambda>op :: u16. Inr (ntohs op \<noteq> ARPOP_REQUEST))) (\<lambda>other.
     if other then Inr (state, say ''ARP is not for IPv4 or is not a request'' [] w, b)
     else
       bindE (load_bytes 4 arp_req 24) (\<lambda>tpa.
       if tpa \<noteq> bytes_of 4 (s_addr (source_addr state))
       then Inr (state, say ''ARP not for our IP addr'' [] w, b)
       else
         bindE (load_bytes 6 arp_req 8) (\<lambda>sha.
         let state = state\<lparr>dest_mac_addr := sha\<rparr> in
         bindE (load_bytes 4 arp_req 14) (\<lambda>spa.
         bindE (alive w) (\<lambda>_.
         bindE (put env state (arp_reply state sha spa) (w, b)) (\<lambda>(bytes, w, b).
         Inr (state, say ''ARP response sent. Length: %d'' [bytes] w, b)))))))))"

section \<open>What it answers\<close>

definition arp_request_for :: "sock_state \<Rightarrow> ether_arp \<Rightarrow> bool" where
  "arp_request_for state a \<longleftrightarrow> ntohs (ar_pro a) = ETHERTYPE_IP \<and> ntohs (ar_op a) = ARPOP_REQUEST \<and>
     arp_tpa a = bytes_of 4 (s_addr (source_addr state))"

lemma arp_fields:
  assumes "ether_arp_wf a"
  shows "load 2 (ether_arp_bytes a @ rest) 2 = Inr (ar_pro a)"
    "load 2 (ether_arp_bytes a @ rest) 6 = Inr (ar_op a)"
    "load_bytes 4 (ether_arp_bytes a @ rest) 24 = Inr (arp_tpa a)"
    "load_bytes 6 (ether_arp_bytes a @ rest) 8 = Inr (arp_sha a)"
    "load_bytes 4 (ether_arp_bytes a @ rest) 14 = Inr (arp_spa a)"
  using assms by (simp_all add: load_def load_bytes_def ether_arp_bytes_def ether_arp_wf_def)

lemma handle_arp_answers:
  assumes "ether_arp_wf a" "arp_request_for state a" "backend_life w \<noteq> Dead"
  shows "handle_arp put env state (ether_arp_bytes a @ rest) (w, b) =
    bindE (put env (state\<lparr>dest_mac_addr := arp_sha a\<rparr>) (arp_reply state (arp_sha a) (arp_spa a)) (w, b))
      (\<lambda>(bytes, w, b). Inr (state\<lparr>dest_mac_addr := arp_sha a\<rparr>,
         say ''ARP response sent. Length: %d'' [bytes] w, b))"
  using assms by (simp add: handle_arp_def arp_fields arp_request_for_def Let_def arp_reply_def)

lemma handle_arp_ignores:
  assumes "ether_arp_wf a" "\<not> arp_request_for state a"
  shows "\<exists>msg. handle_arp put env state (ether_arp_bytes a @ rest) (w, b) = Inr (state, say msg [] w, b)"
  using assms by (auto simp: handle_arp_def arp_fields arp_request_for_def)

text \<open>The reply is an Ethernet frame whose ARP body swaps the roles.\<close>

lemma arp_reply_decodes:
  assumes "sock_state_wf state" "length sha = 6" "length spa = 4"
  shows "length (arp_reply state sha spa) = 42"
    "ether_header_of_bytes (arp_reply state sha spa) =
       \<lparr>ether_dhost = sha, ether_shost = source_mac_addr state, ether_type = htons ETHERTYPE_ARP\<rparr>"
    "ether_arp_of_bytes (drop 14 (arp_reply state sha spa)) =
       \<lparr>ar_hrd = htons ARPHRD_ETHER, ar_pro = htons ETHERTYPE_IP, ar_hln = 6, ar_pln = 4,
        ar_op = htons ARPOP_REPLY, arp_sha = source_mac_addr state,
        arp_spa = bytes_of 4 (s_addr (source_addr state)), arp_tha = sha, arp_tpa = spa\<rparr>"
  using assms
  by (simp_all add: arp_reply_def ether_header_bytes_def ether_header_of_bytes_def ether_arp_of_bytes_def
      ether_arp_bytes_def sock_state_wf_def)

section \<open>On any backend\<close>

context dpi_backend
begin

text \<open>The responder keeps the backend's invariant, drives nothing, and keeps the state well formed.\<close>

lemma handle_arp_frame:
  assumes "handle_arp put_io env ss m (w, b) = Inr (ss', w', b')"
  shows "drives w' = drives w" "sock_state_wf ss \<Longrightarrow> sock_state_wf ss'"
    "source_mac_addr ss' = source_mac_addr ss" "source_addr ss' = source_addr ss"
    "backend_life w' = backend_life w \<or> backend_life w' = Dead" "inv_io b \<Longrightarrow> inv_io b'"
  using assms
  by (auto simp: handle_arp_def res_simps Let_def load_bytes_def sock_state_wf_def
      split: if_splits dest: put_drives put_life put_inv)

end

text \<open>
  C21: an ARP request for the simulated host's address is answered, through any backend, with
  exactly one packet: the reply that gives the host's hardware address, addressed to the
  requester, whose address is remembered. Every other ARP packet changes nothing.
\<close>

theorem handle_arp_responds:
  assumes "ether_arp_wf a" "sock_state_wf state" "backend_life w \<noteq> Dead"
  shows "if arp_request_for state a
    then (\<exists>reply. handle_arp put env state (ether_arp_bytes a @ rest) (w, b) =
        bindE (put env (state\<lparr>dest_mac_addr := arp_sha a\<rparr>) reply (w, b))
          (\<lambda>(bytes, w, b). Inr (state\<lparr>dest_mac_addr := arp_sha a\<rparr>,
             say ''ARP response sent. Length: %d'' [bytes] w, b)) \<and>
      length reply = 42 \<and>
      ether_header_of_bytes reply =
        \<lparr>ether_dhost = arp_sha a, ether_shost = source_mac_addr state, ether_type = htons ETHERTYPE_ARP\<rparr> \<and>
      ether_arp_of_bytes (drop 14 reply) =
        \<lparr>ar_hrd = htons ARPHRD_ETHER, ar_pro = htons ETHERTYPE_IP, ar_hln = 6, ar_pln = 4,
         ar_op = htons ARPOP_REPLY, arp_sha = source_mac_addr state,
         arp_spa = bytes_of 4 (s_addr (source_addr state)), arp_tha = arp_sha a, arp_tpa = arp_spa a\<rparr>)
    else (\<exists>msg. handle_arp put env state (ether_arp_bytes a @ rest) (w, b) = Inr (state, say msg [] w, b))"
proof (cases "arp_request_for state a")
  case True
  have "length (arp_sha a) = 6" "length (arp_spa a) = 4" using assms(1) by (simp_all add: ether_arp_wf_def)
  from handle_arp_answers [OF assms(1) True assms(3), of put env rest b] arp_reply_decodes [OF assms(2) this] True
  show ?thesis by auto
qed (use handle_arp_ignores [OF assms(1)] in simp)

theorem handle_arp_responds_witness:
  "\<exists>reply. handle_arp (\<lambda>env ss p (w, b). Inr (int (length p), w, p # b)) ex_env ex_ss
      (ether_arp_bytes \<lparr>ar_hrd = htons 1, ar_pro = htons ETHERTYPE_IP, ar_hln = 6, ar_pln = 4,
         ar_op = htons ARPOP_REQUEST, arp_sha = [7, 7, 7, 7, 7, 7], arp_spa = [10, 0, 0, 9],
         arp_tha = [0, 0, 0, 0, 0, 0], arp_tpa = [0, 0, 0, 0]\<rparr> @ [])
      (\<lparr>backend_life = Alive, out = []\<rparr>, []) =
      Inr (ex_ss\<lparr>dest_mac_addr := [7, 7, 7, 7, 7, 7]\<rparr>,
        say ''ARP response sent. Length: %d'' [42] \<lparr>backend_life = Alive, out = []\<rparr>, [reply])"
proof -
  let ?a = "\<lparr>ar_hrd = htons 1, ar_pro = htons ETHERTYPE_IP, ar_hln = 6, ar_pln = 4,
         ar_op = htons ARPOP_REQUEST, arp_sha = [7, 7, 7, 7, 7, 7], arp_spa = [10, 0, 0, 9],
         arp_tha = [0, 0, 0, 0, 0, 0], arp_tpa = [0, 0, 0, 0]\<rparr>"
  have "bytes_of 4 (0 :: u32) = [0, 0, 0, 0]" by code_simp
  then have "arp_request_for ex_ss ?a" by (simp add: arp_request_for_def ex_ss_def)
  moreover have "ether_arp_wf ?a" by (simp add: ether_arp_wf_def)
  ultimately show ?thesis
    using handle_arp_responds [of ?a ex_ss "\<lparr>backend_life = Alive, out = []\<rparr>"
        "\<lambda>env ss p (w, b). Inr (int (length p), w, p # b)" ex_env "[]" "[]"] ex_wf(1)
    by auto
qed

end
