(* ===== verification/Network_Side.thy ===== *)
theory Network_Side
  imports ARP
begin

text \<open>
  The network side of the simulation, \<^verbatim>\<open>src/sim_dpi/sim_network_side_queue.cpp\<close>: \<open>get_data\<close>
  drives the receive interface of the hardware one 256-bit beat at a time, \<open>put_data\<close> collects
  the beats the hardware sends and hands the packet to the backend.

  The functions take the backend's two virtual functions as arguments. A bit vector of the 256-bit
  interface is its 32 bytes, byte 0 the least significant. The receive buffer is a heap object:
  \<open>rx_ptr\<close> is null, points to live memory, or dangles. Globals start zeroed.

  Shown: the receive buffer is never used after it is freed nor freed twice, one call of
  \<open>get_data\<close> drives the interface once, the beats of a packet carry exactly its bytes, and the
  transmit side puts exactly those bytes back together.
\<close>

section \<open>State\<close>

definition MAC_INTERFACE_W :: nat where "MAC_INTERFACE_W = 256"

definition mac_bytes :: nat where "mac_bytes = MAC_INTERFACE_W div 8"

lemma mac_bytes [simp]: "mac_bytes = 32"
  by (simp add: mac_bytes_def MAC_INTERFACE_W_def)

datatype rx_ptr = RxNull | RxLive mem | RxFreed

text \<open>A struct of the former header interface, which no code uses any more.\<close>

record rx_header_interface_struct =
  drive_header_bitvec :: "u32 list"
  drive_src_ip :: u32
  drive_dst_ip :: u32
  drive_ip_hdr_len :: u32
  drive_ip_tot_len :: u32
  drive_header_val :: bool

record rx_data_interface_struct =
  rx_buffer :: rx_ptr
  rx_buffer_len :: u64
  rx_buffer_pos :: u64

record tx_data_interface_struct =
  tx_buffer_len :: u64
  tx_buffer_pos :: u64
  tx_buffer :: mem

record 'b network_side =
  instance_state :: sock_state
  rx_data_if :: rx_data_interface_struct
  tx_data_if :: tx_data_interface_struct
  sim_backend :: 'b

section \<open>RX path\<close>

definition recv_from_socket ::
  "'b get_buf_fr_io \<Rightarrow> 'b put_buf_on_io \<Rightarrow> sysenv \<Rightarrow> world \<times> 'b network_side \<Rightarrow>
   (int \<times> world \<times> 'b network_side) res" where
  "recv_from_socket get put env = (\<lambda>(w, s).
     bindE (alive w) (\<lambda>_.
     bindE (get env (instance_state s) (w, sim_backend s)) (\<lambda>(pkt_buf, w, b).
     let s = s\<lparr>sim_backend := b\<rparr> in
     if pkt_buf = [] then Inr (0, w, s)
     else
       bindE (load 2 pkt_buf 12) (\<lambda>etype :: u16.
       if ntohs etype = ETHERTYPE_ARP then
         bindE (handle_arp put env (instance_state s) (drop sizeof_ether_header pkt_buf)
                  (say ''Got ARP'' [] w, b)) (\<lambda>(ss, w, b).
         Inr (0, w, s\<lparr>instance_state := ss, sim_backend := b\<rparr>))
       else if ntohs etype \<noteq> ETHERTYPE_IP then Inr (0, w, s)
       else
         bindE (load 2 pkt_buf (sizeof_ether_header + 2)) (\<lambda>tlen :: u16.
         let len = unat (ntohs tlen) + sizeof_ether_header in
         bindE (load_bytes len pkt_buf 0) (\<lambda>bs.
         Inr (int len, say ''Buffer len: %d'' [int len] w,
              s\<lparr>rx_data_if := \<lparr>rx_buffer = RxLive bs, rx_buffer_len = of_nat len,
                                rx_buffer_pos = 0\<rparr>\<rparr>)))))))"

definition rx_read :: "rx_data_interface_struct \<Rightarrow> u8 res" where
  "rx_read rx =
     (case rx_buffer rx of
        RxNull \<Rightarrow> Inl OutOfBounds
      | RxFreed \<Rightarrow> Inl UseAfterFree
      | RxLive m \<Rightarrow> load 1 m (unat (rx_buffer_pos rx)))"

text \<open>The copying loop; its counter is \<open>i + 1\<close>, which is also the value of \<open>padbytes\<close>.\<close>

fun rx_copy :: "nat \<Rightarrow> mem \<Rightarrow> rx_data_interface_struct \<Rightarrow> (nat \<times> mem \<times> rx_data_interface_struct) res" where
  "rx_copy 0 v rx = Inr (0, v, rx)"
| "rx_copy (Suc i) v rx =
     (if rx_buffer_pos rx < rx_buffer_len rx then
        bindE (rx_read rx) (\<lambda>b. rx_copy i (v[i := b]) (rx\<lparr>rx_buffer_pos := rx_buffer_pos rx + 1\<rparr>))
      else Inr (Suc i, v, rx))"

text \<open>The zeroing loop from index \<open>i\<close> down, again with counter \<open>i + 1\<close>.\<close>

fun rx_pad :: "nat \<Rightarrow> mem \<Rightarrow> mem" where
  "rx_pad 0 v = v"
| "rx_pad (Suc i) v = rx_pad i (v[i := 0])"

fun say_bytes :: "mem \<Rightarrow> world \<Rightarrow> world" where
  "say_bytes [] w = w"
| "say_bytes (b # bs) w = say_bytes bs (say ''%hhx '' [uint b] w)"

definition rx_free :: "rx_data_interface_struct \<Rightarrow> rx_data_interface_struct res" where
  "rx_free rx =
     (case rx_buffer rx of
        RxNull \<Rightarrow> Inr rx
      | RxFreed \<Rightarrow> Inl DoubleFree
      | RxLive m \<Rightarrow> Inr (rx\<lparr>rx_buffer := RxFreed\<rparr>))"

text \<open>The part of \<open>get_data\<close> after there is something to deliver.\<close>

definition get_data_beat :: "sysenv \<Rightarrow> world \<times> 'b network_side \<Rightarrow> (world \<times> 'b network_side) res" where
  "get_data_beat env = (\<lambda>(w, s).
     bindE (rx_copy mac_bytes (take mac_bytes (stack_garbage env)) (rx_data_if s)) (\<lambda>(padbytes, v, rx).
     let last_beat = (rx_buffer_pos rx = rx_buffer_len rx);
         v = rx_pad padbytes v;
         w = say [] [] (say_bytes v (say ''Buffer is: '' [] w));
         w = emit (DriveRx True v last_beat (int padbytes)) w
     in bindE (if rx_buffer_len rx \<le> rx_buffer_pos rx then rx_free rx else Inr rx) (\<lambda>rx.
        Inr (w, s\<lparr>rx_data_if := rx\<rparr>))))"

definition get_data ::
  "'b get_buf_fr_io \<Rightarrow> 'b put_buf_on_io \<Rightarrow> sysenv \<Rightarrow> world \<times> 'b network_side \<Rightarrow>
   (world \<times> 'b network_side) res" where
  "get_data get put env = (\<lambda>(w, s).
     if rx_buffer_len (rx_data_if s) \<le> rx_buffer_pos (rx_data_if s) then
       bindE (recv_from_socket get put env (w, s)) (\<lambda>(status, w, s).
       if status = 0 then Inr (emit (DriveRx False (replicate mac_bytes 0) False 0) w, s)
       else get_data_beat env (w, s))
     else get_data_beat env (w, s))"

section \<open>TX path\<close>

definition send_on_socket ::
  "'b put_buf_on_io \<Rightarrow> sysenv \<Rightarrow> world \<times> 'b network_side \<Rightarrow> (world \<times> 'b network_side) res" where
  "send_on_socket put env = (\<lambda>(w, s).
     let buf = tx_buffer (tx_data_if s);
         w = say ''========Outgoing packet========'' [] w;
         w = say ''Length: %d'' [sint (of_nat (length buf) :: u32)] w
     in
     bindE (alive w) (\<lambda>_.
     bindE (put env (instance_state s) buf (w, sim_backend s)) (\<lambda>(bytes, w, b).
     let w = say ''Bytes sent: %d'' [bytes] w;
         w = say ''==============================='' [] w
     in Inr (w, s\<lparr>sim_backend := b, tx_data_if := (tx_data_if s)\<lparr>tx_buffer := []\<rparr>\<rparr>))))"

text \<open>The loop that appends the bytes from index \<open>i\<close> down to \<open>padbytes\<close>; its counter is \<open>i + 1\<close>.\<close>

fun tx_push :: "nat \<Rightarrow> int \<Rightarrow> mem \<Rightarrow> world \<times> mem \<Rightarrow> (world \<times> mem) res" where
  "tx_push 0 pad v (w, buf) = (if -1 \<ge> pad then Inl OutOfBounds else Inr (w, buf))"
| "tx_push (Suc i) pad v (w, buf) =
     (if int i \<ge> pad
      then bindE (load 1 v i) (\<lambda>b. tx_push i pad v (say ''%hhx '' [uint b] w, buf @ [b]))
      else Inr (w, buf))"

definition put_data ::
  "'b put_buf_on_io \<Rightarrow> sysenv \<Rightarrow> mem \<Rightarrow> bool \<Rightarrow> int \<Rightarrow> world \<times> 'b network_side \<Rightarrow>
   (world \<times> 'b network_side) res" where
  "put_data put env dpi_vector last_beat padbytes = (\<lambda>(w, s).
     let dpi_padbytes = (if last_beat then padbytes else 0);
         w = (if last_beat then say ''Padbytes is: %d'' [dpi_padbytes] w else w);
         w = say ''Putting data in vector. Buffer: '' [] w
     in
     bindE (tx_push mac_bytes dpi_padbytes dpi_vector (w, tx_buffer (tx_data_if s))) (\<lambda>(w, buf).
     let w = say [] [] w;
         s = s\<lparr>tx_data_if := (tx_data_if s)\<lparr>tx_buffer := buf\<rparr>\<rparr>
     in if last_beat then send_on_socket put env (w, s) else Inr (w, s)))"

section \<open>The receive buffer\<close>

text \<open>
  While a packet is being delivered the buffer is live and as long as announced; otherwise it is
  not live.
\<close>

definition rx_inv :: "rx_data_interface_struct \<Rightarrow> bool" where
  "rx_inv rx =
     (if rx_buffer_pos rx < rx_buffer_len rx
      then (case rx_buffer rx of RxLive m \<Rightarrow> length m = unat (rx_buffer_len rx) | _ \<Rightarrow> False)
      else (case rx_buffer rx of RxLive m \<Rightarrow> False | _ \<Rightarrow> True))"

text \<open>The bytes that are still to be delivered.\<close>

definition rx_rest :: "rx_data_interface_struct \<Rightarrow> mem" where
  "rx_rest rx = (case rx_buffer rx of RxLive m \<Rightarrow> drop (unat (rx_buffer_pos rx)) m | _ \<Rightarrow> [])"

lemma unat_plus_one: "p < q \<Longrightarrow> unat (p + 1) = Suc (unat p)" for p q :: u64
proof -
  assume "p < q"
  then have "unat p < unat q" by (simp add: word_less_nat_alt)
  moreover have "unat q < 2 ^ 64" using unsigned_less [of q] by simp
  ultimately show ?thesis by (simp add: unat_word_ariths)
qed

lemma rx_copy_spec:
  "rx_buffer rx = RxLive m \<Longrightarrow> length m = unat (rx_buffer_len rx) \<Longrightarrow>
   unat (rx_buffer_pos rx) \<le> unat (rx_buffer_len rx) \<Longrightarrow> n \<le> length v \<Longrightarrow>
   k = min n (length (rx_rest rx)) \<Longrightarrow>
   \<exists>rx'. rx_copy n v rx = Inr (n - k, take (n - k) v @ rev (take k (rx_rest rx)) @ drop n v, rx') \<and>
     rx_buffer rx' = RxLive m \<and> rx_buffer_len rx' = rx_buffer_len rx \<and>
     unat (rx_buffer_pos rx') = unat (rx_buffer_pos rx) + k"
proof (induction n arbitrary: v rx k)
  case 0
  then show ?case by simp
next
  case (Suc n)
  show ?case
  proof (cases "rx_buffer_pos rx < rx_buffer_len rx")
    case True
    then have lt: "unat (rx_buffer_pos rx) < length m" using Suc.prems(2) by (simp add: word_less_nat_alt)
    let ?b = "m ! unat (rx_buffer_pos rx)" and ?rx = "rx\<lparr>rx_buffer_pos := rx_buffer_pos rx + 1\<rparr>"
    have rest: "rx_rest rx = ?b # rx_rest ?rx"
      using Suc.prems(1) lt unat_plus_one [OF True] by (simp add: rx_rest_def Cons_nth_drop_Suc)
    have rd: "rx_read rx = Inr ?b" using Suc.prems(1) lt by (simp add: rx_read_def load_byte)
    define k' where "k' = min n (length (rx_rest ?rx))"
    have k: "k = Suc k'" using Suc.prems(5) rest by (simp add: k'_def)
    have "\<exists>rx'. rx_copy n (v[n := ?b]) ?rx = Inr (n - k', take (n - k') (v[n := ?b]) @
        rev (take k' (rx_rest ?rx)) @ drop n (v[n := ?b]), rx') \<and>
      rx_buffer rx' = RxLive m \<and> rx_buffer_len rx' = rx_buffer_len ?rx \<and>
      unat (rx_buffer_pos rx') = unat (rx_buffer_pos ?rx) + k'"
      by (rule Suc.IH) (use Suc.prems lt unat_plus_one [OF True] k'_def in auto)
    then obtain rx' where 1: "rx_copy n (v[n := ?b]) ?rx = Inr (n - k', take (n - k') (v[n := ?b]) @
        rev (take k' (rx_rest ?rx)) @ drop n (v[n := ?b]), rx')"
      "rx_buffer rx' = RxLive m" "rx_buffer_len rx' = rx_buffer_len rx"
      "unat (rx_buffer_pos rx') = unat (rx_buffer_pos rx) + k"
      using unat_plus_one [OF True] k by auto
    have "drop n (v[n := ?b]) = ?b # drop (Suc n) v"
      using Suc.prems(4) by (simp add: drop_update_swap upd_conv_take_nth_drop)
    moreover have "take (n - k') (v[n := ?b]) = take (n - k') v" by simp
    ultimately have "take (n - k') (v[n := ?b]) @ rev (take k' (rx_rest ?rx)) @ drop n (v[n := ?b]) =
        take (Suc n - k) v @ rev (take k (rx_rest rx)) @ drop (Suc n) v"
      using rest k by simp
    with 1 True rd k show ?thesis by auto
  next
    case False
    then have "rx_rest rx = []" using Suc.prems by (simp add: rx_rest_def word_less_nat_alt)
    with False Suc.prems show ?thesis by simp
  qed
qed

lemma rx_pad_spec: "n \<le> length v \<Longrightarrow> rx_pad n v = replicate n 0 @ drop n v"
proof (induction n arbitrary: v)
  case (Suc n)
  then have "drop n (v[n := 0]) = 0 # drop (Suc n) v"
    by (simp add: drop_update_swap upd_conv_take_nth_drop)
  with Suc show ?case by (simp add: replicate_app_Cons_same)
qed simp

section \<open>One beat\<close>

lemma say_bytes_frame [simp]:
  "drives (say_bytes bs w) = drives w" "backend_life (say_bytes bs w) = backend_life w"
  by (induction bs w rule: say_bytes.induct) simp_all

text \<open>The beat that carries the first bytes of \<open>r\<close>: the first byte in the most significant place.\<close>

definition beat :: "mem \<Rightarrow> event" where
  "beat r = DriveRx True (replicate (mac_bytes - length r) 0 @ rev (take mac_bytes r))
     (length r \<le> mac_bytes) (int (mac_bytes - length r))"

definition delivering :: "rx_data_interface_struct \<Rightarrow> bool" where
  "delivering rx \<longleftrightarrow> rx_buffer_pos rx < rx_buffer_len rx"

lemma rx_rest_delivering:
  assumes "rx_inv rx"
  shows "rx_rest rx \<noteq> [] \<longleftrightarrow> delivering rx"
  using assms
  by (auto simp: rx_inv_def rx_rest_def delivering_def word_less_nat_alt split: rx_ptr.splits if_splits)

lemma get_data_beat_spec:
  assumes inv: "rx_inv (rx_data_if s)" and d: "delivering (rx_data_if s)" and env: "sysenv_wf env"
  shows "\<exists>w' rx'. get_data_beat env (w, s) = Inr (w', s\<lparr>rx_data_if := rx'\<rparr>) \<and> rx_inv rx' \<and>
    rx_rest rx' = drop mac_bytes (rx_rest (rx_data_if s)) \<and>
    drives w' = drives w @ [beat (rx_rest (rx_data_if s))] \<and> backend_life w' = backend_life w"
proof -
  let ?rx = "rx_data_if s" let ?r = "rx_rest ?rx" let ?g = "take 32 (stack_garbage env)"
  define k where "k = min 32 (length ?r)"
  from inv d obtain m where m: "rx_buffer ?rx = RxLive m" "length m = unat (rx_buffer_len ?rx)"
    by (auto simp: rx_inv_def delivering_def split: rx_ptr.splits)
  have pos: "unat (rx_buffer_pos ?rx) \<le> unat (rx_buffer_len ?rx)"
    using d by (simp add: delivering_def word_less_nat_alt)
  have g: "length ?g = 32" using env by (simp add: sysenv_wf_def)
  then have g': "32 \<le> length ?g" by simp
  obtain rx1 where c: "rx_copy 32 ?g ?rx = Inr (32 - k, take (32 - k) ?g @ rev (take k ?r) @ drop 32 ?g, rx1)"
      "rx_buffer rx1 = RxLive m" "rx_buffer_len rx1 = rx_buffer_len ?rx"
      "unat (rx_buffer_pos rx1) = unat (rx_buffer_pos ?rx) + k"
    using rx_copy_spec [OF m pos g' k_def] by blast
  have lr: "length ?r = unat (rx_buffer_len ?rx) - unat (rx_buffer_pos ?rx)" using m by (simp add: rx_rest_def)
  let ?v = "replicate (32 - k) 0 @ rev (take k ?r)"
  have tk: "take k ?r = take 32 ?r" by (simp add: k_def min_def)
  have v: "rx_pad (32 - k) (take (32 - k) ?g @ rev (take k ?r) @ drop 32 ?g) = ?v"
    using g by (subst rx_pad_spec) (simp_all add: k_def)
  have last: "rx_buffer_pos rx1 = rx_buffer_len rx1 \<longleftrightarrow> length ?r \<le> 32"
    "rx_buffer_len rx1 \<le> rx_buffer_pos rx1 \<longleftrightarrow> length ?r \<le> 32"
    using c(3,4) lr pos by (auto simp: word_unat_eq_iff word_le_nat_alt k_def)
  have b: "DriveRx True ?v (length ?r \<le> 32) (int (32 - k)) = beat ?r"
    by (simp add: beat_def tk k_def min_def)
  let ?w = "emit (beat ?r) (say [] [] (say_bytes ?v (say ''Buffer is: '' [] w)))"
  let ?rx' = "if length ?r \<le> 32 then rx1\<lparr>rx_buffer := RxFreed\<rparr> else rx1"
  have "get_data_beat env (w, s) = Inr (?w, s\<lparr>rx_data_if := ?rx'\<rparr>)"
    unfolding get_data_beat_def mac_bytes case_prod_conv c(1) bindE_Inr Let_def v last b
    using c(2) by (simp add: rx_free_def)
  moreover have "rx_inv ?rx'" "rx_rest ?rx' = drop 32 ?r"
    using c m last lr by (auto simp: rx_inv_def rx_rest_def word_less_nat_alt k_def word_le_nat_alt add.commute)
  moreover have "drives ?w = drives w @ [beat ?r]" by (simp add: beat_def)
  ultimately show ?thesis by (intro exI [of _ ?w] exI [of _ ?rx']) (simp del: mac_bytes add: mac_bytes)
qed

section \<open>A whole packet\<close>

function beats :: "mem \<Rightarrow> event list" where
  "beats r = (if length r \<le> mac_bytes then [beat r] else beat r # beats (drop mac_bytes r))"
  by pat_completeness auto
termination by (relation "measure length") auto

declare beats.simps [simp del]

fun get_datas ::
  "'b get_buf_fr_io \<Rightarrow> 'b put_buf_on_io \<Rightarrow> sysenv list \<Rightarrow> world \<times> 'b network_side \<Rightarrow>
   (world \<times> 'b network_side) res" where
  "get_datas get put [] s = Inr s"
| "get_datas get put (env # envs) s = bindE (get_data get put env s) (get_datas get put envs)"

lemma get_data_delivering:
  "delivering (rx_data_if s) \<Longrightarrow> get_data get put env (w, s) = get_data_beat env (w, s)"
  by (auto simp: get_data_def delivering_def)

lemma get_datas_beats:
  assumes "rx_inv (rx_data_if s)" "delivering (rx_data_if s)" "list_all sysenv_wf envs"
    and "length envs = length (beats (rx_rest (rx_data_if s)))"
  shows "\<exists>w' rx'. get_datas get put envs (w, s) = Inr (w', s\<lparr>rx_data_if := rx'\<rparr>) \<and>
    drives w' = drives w @ beats (rx_rest (rx_data_if s)) \<and> rx_inv rx' \<and> \<not> delivering rx' \<and>
    backend_life w' = backend_life w"
  using assms
proof (induction envs arbitrary: w s)
  case Nil
  then show ?case by (subst (asm) beats.simps) (simp split: if_splits)
next
  case (Cons env envs)
  let ?r = "rx_rest (rx_data_if s)"
  obtain w1 rx1 where 1: "get_data_beat env (w, s) = Inr (w1, s\<lparr>rx_data_if := rx1\<rparr>)" "rx_inv rx1"
      "rx_rest rx1 = drop mac_bytes ?r" "drives w1 = drives w @ [beat ?r]" "backend_life w1 = backend_life w"
    using get_data_beat_spec [OF Cons.prems(1,2), of env w] Cons.prems(3) by auto
  have b: "beats ?r = (if length ?r \<le> 32 then [beat ?r] else beat ?r # beats (rx_rest rx1))"
    using 1(3) by (subst beats.simps) simp
  note g = get_data_delivering [OF Cons.prems(2)]
  show ?case
  proof (cases "length ?r \<le> 32")
    case True
    then have "envs = []" "\<not> delivering rx1"
      using b Cons.prems(4) rx_rest_delivering [OF 1(2)] 1(3) by auto
    with True b 1 g show ?thesis by auto
  next
    case False
    then have d: "delivering rx1" using rx_rest_delivering [OF 1(2)] 1(3) by auto
    have "\<exists>w' rx'. get_datas get put envs (w1, s\<lparr>rx_data_if := rx1\<rparr>) = Inr (w', s\<lparr>rx_data_if := rx1\<rparr>\<lparr>rx_data_if := rx'\<rparr>) \<and>
      drives w' = drives w1 @ beats (rx_rest rx1) \<and> rx_inv rx' \<and> \<not> delivering rx' \<and> backend_life w' = backend_life w1"
      using Cons.IH [of "s\<lparr>rx_data_if := rx1\<rparr>" w1] 1(2) d b False Cons.prems(3,4) by auto
    with False b 1 g show ?thesis by auto
  qed
qed

text \<open>The IP packet that a frame carries, with its Ethernet header.\<close>

definition ip_frame :: "mem \<Rightarrow> nat \<Rightarrow> bool" where
  "ip_frame p flen \<longleftrightarrow> 18 \<le> length p \<and> ntohs (word_of_bytes (take 2 (drop 12 p))) = ETHERTYPE_IP \<and>
     flen = unat (ntohs (word_of_bytes (take 2 (drop 16 p)))) + 14"

lemma recv_from_socket_ip:
  assumes a: "backend_life w \<noteq> Dead" and g: "get env (instance_state s) (w, sim_backend s) = Inr (p, w1, b1)"
    and p: "ip_frame p flen" "flen \<le> length p"
  shows "recv_from_socket get put env (w, s) =
    Inr (int flen, say ''Buffer len: %d'' [int flen] w1,
      s\<lparr>sim_backend := b1,
        rx_data_if := \<lparr>rx_buffer = RxLive (take flen p), rx_buffer_len = of_nat flen, rx_buffer_pos = 0\<rparr>\<rparr>)"
proof -
  have "ETHERTYPE_IP \<noteq> ETHERTYPE_ARP" by (simp add: ETHERTYPE_IP_def ETHERTYPE_ARP_def)
  moreover have "load 2 p 12 = Inr (word_of_bytes (take 2 (drop 12 p)) :: u16)"
    "load 2 p 16 = Inr (word_of_bytes (take 2 (drop 16 p)) :: u16)" "p \<noteq> []"
    using p(1) by (auto simp: ip_frame_def load_def)
  ultimately show ?thesis
    using a g p by (simp add: recv_from_socket_def ip_frame_def Let_def load_bytes_def)
qed

lemma get_datas_frame:
  fixes get :: "'b get_buf_fr_io" and s :: "'b network_side"
  assumes "rx_inv (rx_data_if s)" "\<not> delivering (rx_data_if s)" "backend_life w \<noteq> Dead"
    and g: "get env (instance_state s) (w, sim_backend s) = Inr (p, w1, b1)"
    and p: "ip_frame p flen" "flen \<le> length p"
    and env: "list_all sysenv_wf (env # envs)" "Suc (length envs) = length (beats (take flen p))"
  shows "\<exists>w' rx'. get_datas get put (env # envs) (w, s) = Inr (w', s\<lparr>sim_backend := b1, rx_data_if := rx'\<rparr>) \<and>
    drives w' = drives w1 @ beats (take flen p) \<and> rx_inv rx' \<and> \<not> delivering rx'"
proof -
  let ?rx = "\<lparr>rx_buffer = RxLive (take flen p), rx_buffer_len = of_nat flen, rx_buffer_pos = 0\<rparr>"
  let ?s = "s\<lparr>sim_backend := b1, rx_data_if := ?rx\<rparr>" let ?w = "say ''Buffer len: %d'' [int flen] w1"
  have "unat (ntohs (word_of_bytes (take 2 (drop 16 p)))) < 2 ^ 16"
    using unsigned_less [of "ntohs (word_of_bytes (take 2 (drop 16 p)))"] by simp
  then have fl: "flen < 2 ^ 64" "0 < flen" using p(1) by (simp_all add: ip_frame_def)
  then have l: "unat (of_nat flen :: u64) = flen" by (simp add: unat_of_nat)
  have rx: "rx_inv ?rx" "delivering ?rx" "rx_rest ?rx = take flen p"
    using l fl(2) p(2) by (simp_all add: rx_inv_def delivering_def rx_rest_def word_less_nat_alt)
  have "get_data get put env (w, s) = get_data_beat env (?w, ?s)"
    using assms(2) recv_from_socket_ip [of w get env s p w1 b1 flen put] assms(3) g p fl(2)
    by (simp add: get_data_def delivering_def not_less)
  also have "\<dots> = get_data get put env (?w, ?s)" using rx(2) by (simp add: get_data_delivering)
  finally have "get_datas get put (env # envs) (w, s) = get_datas get put (env # envs) (?w, ?s)" by simp
  moreover obtain w' rx' where "get_datas get put (env # envs) (?w, ?s) = Inr (w', ?s\<lparr>rx_data_if := rx'\<rparr>)"
      "drives w' = drives ?w @ beats (take flen p)" "rx_inv rx'" "\<not> delivering rx'"
    using get_datas_beats [of ?s "env # envs" get put ?w] rx env by auto
  ultimately show ?thesis by auto
qed

text \<open>
  C7: when the backend hands over an IP frame that really has the bytes its IP header announces,
  the following calls of \<open>get_data\<close>, one per started 32 bytes, drive exactly the beats of the
  frame cut to the announced length, then the buffer is free again.
\<close>

theorem get_data_delivers_frame:
  fixes get :: "'b get_buf_fr_io" and s :: "'b network_side"
  assumes "rx_inv (rx_data_if s)" "\<not> delivering (rx_data_if s)" "backend_life w \<noteq> Dead"
    and g: "get env (instance_state s) (w, sim_backend s) = Inr (p, w1, b1)"
    and p: "ip_frame p flen" "flen \<le> length p"
    and env: "list_all sysenv_wf (env # envs)" "Suc (length envs) = length (beats (take flen p))"
  shows "\<exists>w' rx'. get_datas get put (env # envs) (w, s) = Inr (w', s\<lparr>sim_backend := b1, rx_data_if := rx'\<rparr>) \<and>
    drives w' = drives w1 @ beats (take flen p) \<and> rx_inv rx' \<and> \<not> delivering rx'"
  using assms by (rule get_datas_frame)

text \<open>
  C36: when the frame is shorter than its IP header announces, \<open>recv_from_socket\<close> copies from
  beyond the end of the packet.
\<close>

theorem recv_from_socket_overread:
  assumes "backend_life w \<noteq> Dead" "get env (instance_state s) (w, sim_backend s) = Inr (p, w1, b1)"
    and "ip_frame p flen" "length p < flen"
  shows "recv_from_socket get put env (w, s) = Inl OutOfBounds"
proof -
  have "ETHERTYPE_IP \<noteq> ETHERTYPE_ARP" by (simp add: ETHERTYPE_IP_def ETHERTYPE_ARP_def)
  moreover have "load 2 p 12 = Inr (word_of_bytes (take 2 (drop 12 p)) :: u16)"
    "load 2 p 16 = Inr (word_of_bytes (take 2 (drop 16 p)) :: u16)" "p \<noteq> []"
    using assms(3) by (auto simp: ip_frame_def load_def)
  ultimately show ?thesis
    using assms by (simp add: recv_from_socket_def ip_frame_def Let_def load_bytes_def)
qed

section \<open>Safety of the receive side\<close>

lemma recv_from_socket_rx:
  assumes r: "recv_from_socket get put env (w, s) = Inr (st, w1, s1)"
  shows "if st = 0 then rx_data_if s1 = rx_data_if s
    else rx_inv (rx_data_if s1) \<and> delivering (rx_data_if s1)"
proof -
  have u: "unat (ntohs x) + 14 < 2 ^ 64" "unat (of_nat (unat (ntohs x) + 14) :: u64) = unat (ntohs x) + 14" for x
  proof -
    have "unat (ntohs x) < 2 ^ 16" using unsigned_less [of "ntohs x"] by simp
    then show "unat (ntohs x) + 14 < 2 ^ 64" by simp
    then show "unat (of_nat (unat (ntohs x) + 14) :: u64) = unat (ntohs x) + 14" by (simp only: unat_of_nat) simp
  qed
  show ?thesis
    using r
    by (auto simp: recv_from_socket_def res_simps Let_def load_bytes_def rx_inv_def delivering_def
        word_less_nat_alt u simp del: of_nat_add split: if_splits)
qed

text \<open>The three ways a call returns.\<close>

lemma get_dataE:
  assumes "get_data get put env (w, s) = Inr (w', s')"
  obtains (running) "delivering (rx_data_if s)" "get_data_beat env (w, s) = Inr (w', s')"
  | (quiet) w1 where "recv_from_socket get put env (w, s) = Inr (0, w1, s')" "rx_data_if s' = rx_data_if s"
      "w' = emit (DriveRx False (replicate mac_bytes 0) False 0) w1"
  | (fetched) st w1 s1 where "recv_from_socket get put env (w, s) = Inr (st, w1, s1)"
      "rx_inv (rx_data_if s1)" "delivering (rx_data_if s1)" "get_data_beat env (w1, s1) = Inr (w', s')"
proof (cases "delivering (rx_data_if s)")
  case True
  with assms running show thesis by (simp add: get_data_delivering)
next
  case False
  with assms obtain st w1 s1 where r: "recv_from_socket get put env (w, s) = Inr (st, w1, s1)"
    and c: "(if st = 0 then Inr (emit (DriveRx False (replicate mac_bytes 0) False 0) w1, s1)
       else get_data_beat env (w1, s1)) = Inr (w', s')"
    by (auto simp: get_data_def delivering_def not_less res_simps)
  show thesis
    using recv_from_socket_rx [OF r] r c by (cases "st = 0") (auto simp del: mac_bytes intro: quiet fetched)
qed

lemma get_data_rx_keeps:
  assumes "rx_inv (rx_data_if s)" "sysenv_wf env" "get_data get put env (w, s) = Inr (w', s')"
  shows "rx_inv (rx_data_if s')"
  using assms(3)
proof (cases rule: get_dataE)
  case running
  then show ?thesis using get_data_beat_spec [OF assms(1) running(1) assms(2), of w] by auto
next
  case (fetched st w1 s1)
  then show ?thesis using get_data_beat_spec [OF fetched(2,3) assms(2), of w1] by auto
qed (use assms(1) in simp)

text \<open>
  C8: the life of the receive buffer: as long as its invariant holds, \<open>get_data\<close> fails only
  where obtaining the next packet fails (it never reads a freed buffer, frees one twice or reads
  outside one), and it re-establishes the invariant.
\<close>

theorem get_data_rx_safe:
  assumes "rx_inv (rx_data_if s)" "sysenv_wf env"
  shows "case get_data get put env (w, s) of
      Inl e \<Rightarrow> recv_from_socket get put env (w, s) = Inl e
    | Inr (w', s') \<Rightarrow> rx_inv (rx_data_if s')"
proof (cases "get_data get put env (w, s)")
  case (Inr c)
  then show ?thesis using get_data_rx_keeps [OF assms] by (cases c) auto
next
  case (Inl e)
  have "\<not> delivering (rx_data_if s)"
    using Inl get_data_beat_spec [OF assms(1) _ assms(2), of w] by (auto simp: get_data_delivering)
  then have "recv_from_socket get put env (w, s) = Inl e \<or>
      (\<exists>st w1 s1. st \<noteq> 0 \<and> recv_from_socket get put env (w, s) = Inr (st, w1, s1) \<and> get_data_beat env (w1, s1) = Inl e)"
    using Inl by (auto simp: get_data_def delivering_def not_less res_simps split: if_splits)
  moreover have "get_data_beat env (w1, s1) \<noteq> Inl e"
    if "recv_from_socket get put env (w, s) = Inr (st, w1, s1)" "st \<noteq> 0" for st w1 s1
    using recv_from_socket_rx [OF that(1)] that(2) get_data_beat_spec [of s1 env w1] assms(2) by auto
  ultimately show ?thesis using Inl by auto
qed

text \<open>
  What the receive interface of the hardware is promised of each drive: 32 bytes of data; padding
  only on the last beat and never a whole beat, and zero; nothing at all on an idle drive.
\<close>

definition drive_ok :: "event \<Rightarrow> bool" where
  "drive_ok e =
     (case e of
        DriveRx valid d l p \<Rightarrow>
          length d = 32 \<and>
          (if valid then 0 \<le> p \<and> p < 32 \<and> (0 < p \<longrightarrow> l) \<and> take (nat p) d = replicate (nat p) 0
           else d = replicate 32 0 \<and> \<not> l \<and> p = 0)
      | _ \<Rightarrow> False)"

lemma drive_ok_beat: "r \<noteq> [] \<Longrightarrow> drive_ok (beat r)"
  by (cases r) (auto simp: drive_ok_def beat_def)

lemma drive_ok_idle: "drive_ok (DriveRx False (replicate mac_bytes 0) False 0)"
  by (simp add: drive_ok_def)

context dpi_backend
begin

lemma recv_from_socket_frame:
  assumes r: "recv_from_socket get_io put_io env (w, s) = Inr (st, w', s')"
  shows "drives w' = drives w" "inv_io (sim_backend s) \<Longrightarrow> inv_io (sim_backend s')"
    "sock_state_wf (instance_state s) \<Longrightarrow> sock_state_wf (instance_state s')"
    "source_mac_addr (instance_state s') = source_mac_addr (instance_state s)" "tx_data_if s' = tx_data_if s"
proof -
  from r obtain p w1 b1 where g: "get_io env (instance_state s) (w, sim_backend s) = Inr (p, w1, b1)"
    by (auto simp: recv_from_socket_def res_simps)
  have 1: "drives w1 = drives w" "inv_io (sim_backend s) \<Longrightarrow> inv_io b1"
    using get_drives [OF g] get_inv [OF _ g] by auto
  consider (arp) ss' where "handle_arp put_io env (instance_state s) (drop 14 p) (say ''Got ARP'' [] w1, b1) =
        Inr (ss', w', sim_backend s')" "instance_state s' = ss'" "tx_data_if s' = tx_data_if s"
    | (other) "drives w' = drives w1" "sim_backend s' = b1" "instance_state s' = instance_state s"
        "tx_data_if s' = tx_data_if s"
    using r g by (fastforce simp: recv_from_socket_def res_simps Let_def split: if_splits)
  then show "drives w' = drives w" "inv_io (sim_backend s) \<Longrightarrow> inv_io (sim_backend s')"
    "sock_state_wf (instance_state s) \<Longrightarrow> sock_state_wf (instance_state s')"
    "source_mac_addr (instance_state s') = source_mac_addr (instance_state s)" "tx_data_if s' = tx_data_if s"
    by (cases; use 1 handle_arp_frame in force)+
qed

lemma get_data_instance:
  assumes "rx_inv (rx_data_if s)" "sysenv_wf env" and g: "get_data get_io put_io env (w, s) = Inr (w', s')"
  shows "(sock_state_wf (instance_state s) \<longrightarrow> sock_state_wf (instance_state s')) \<and>
    source_mac_addr (instance_state s') = source_mac_addr (instance_state s)"
  using g
proof (cases rule: get_dataE)
  case running
  then show ?thesis using get_data_beat_spec [OF assms(1) running(1) assms(2), of w] by auto
next
  case (quiet w1)
  then show ?thesis using recv_from_socket_frame(3,4) [OF quiet(1)] by simp
next
  case (fetched st w1 s1)
  then show ?thesis
    using recv_from_socket_frame(3,4) [OF fetched(1)] get_data_beat_spec [OF fetched(2,3) assms(2), of w1] by auto
qed

lemma get_data_tx:
  assumes "get_data get_io put_io env (w, s) = Inr (w', s')"
  shows "tx_data_if s' = tx_data_if s"
proof -
  have "tx_data_if s2 = tx_data_if s1" if "get_data_beat env (w1, s1) = Inr (w2, s2)" for w1 w2 and s1 s2 :: "'a network_side"
    using that by (auto simp: get_data_beat_def Let_def res_simps)
  with assms show ?thesis
    by (cases rule: get_dataE) (auto dest: recv_from_socket_frame(5))
qed

text \<open>One call, one drive of the interface; the backend's invariant is kept.\<close>

lemma get_data_drives_once:
  assumes "rx_inv (rx_data_if s)" "sysenv_wf env" and g: "get_data get_io put_io env (w, s) = Inr (w', s')"
  shows "(\<exists>e. drive_ok e \<and> drives w' = drives w @ [e]) \<and> (inv_io (sim_backend s) \<longrightarrow> inv_io (sim_backend s'))"
proof -
  have beat: "\<exists>e. drive_ok e \<and> drives w' = drives w1 @ [e] \<and> sim_backend s' = sim_backend s1"
    if "get_data_beat env (w1, s1) = Inr (w', s')" "rx_inv (rx_data_if s1)" "delivering (rx_data_if s1)" for w1 s1
    using get_data_beat_spec [OF that(2,3) assms(2), of w1] that(1) rx_rest_delivering [OF that(2)] that(3)
    by (auto intro: drive_ok_beat)
  from g show ?thesis
  proof (cases rule: get_dataE)
    case running
    then show ?thesis using beat [of w s] assms(1) by auto
  next
    case (quiet w1)
    then show ?thesis using recv_from_socket_frame(1,2) [OF quiet(1)] drive_ok_idle by auto
  next
    case (fetched st w1 s1)
    then show ?thesis using recv_from_socket_frame(1,2) [OF fetched(1)] beat [of w1 s1] by auto
  qed
qed

end

section \<open>The transmit side\<close>

lemma tx_push_spec:
  "n \<le> length v \<Longrightarrow> p \<le> n \<Longrightarrow>
   \<exists>w'. tx_push n (int p) v (w, buf) = Inr (w', buf @ rev (drop p (take n v))) \<and>
     drives w' = drives w \<and> backend_life w' = backend_life w"
proof (induction n arbitrary: w buf)
  case (Suc n)
  show ?case
  proof (cases "p \<le> n")
    case True
    then have "drop p (take (Suc n) v) = drop p (take n v) @ [v ! n]"
      using Suc.prems(1) by (simp add: take_Suc_conv_app_nth)
    with True Suc.prems Suc.IH [of "say ''%hhx '' [uint (v ! n)] w" "buf @ [v ! n]"] show ?thesis
      by (auto simp: load_byte)
  next
    case False
    with Suc.prems have "p = Suc n" by simp
    then show ?thesis by simp
  qed
qed simp

text \<open>The beats of a packet fed to \<open>put_data\<close>, as a hardware that returns what it receives does.\<close>

fun put_beats ::
  "'b put_buf_on_io \<Rightarrow> sysenv \<Rightarrow> event list \<Rightarrow> world \<times> 'b network_side \<Rightarrow> (world \<times> 'b network_side) res" where
  "put_beats put env [] s = Inr s"
| "put_beats put env (DriveRx True v l p # es) s = bindE (put_data put env v l p s) (put_beats put env es)"
| "put_beats put env (_ # es) s = put_beats put env es s"

lemma bindE_put_beats: "bindE x (put_beats put env []) = x"
  by (cases x) simp_all

lemma put_data_beat:
  assumes "r \<noteq> []"
  shows "\<exists>w1. put_beats put env (beat r # es) (w, s) =
      (let s1 = s\<lparr>tx_data_if := (tx_data_if s)\<lparr>tx_buffer := tx_buffer (tx_data_if s) @ take 32 r\<rparr>\<rparr> in
       bindE (if length r \<le> 32 then send_on_socket put env (w1, s1) else Inr (w1, s1)) (put_beats put env es)) \<and>
    drives w1 = drives w \<and> backend_life w1 = backend_life w"
proof -
  let ?v = "replicate (32 - length r) 0 @ rev (take 32 r)" and ?p = "32 - length r"
  let ?w = "say ''Putting data in vector. Buffer: '' []
    (if length r \<le> 32 then say ''Padbytes is: %d'' [int ?p] w else w)"
  have lv: "length ?v = 32" by simp
  have p0: "(if length r \<le> 32 then int ?p else 0) = int ?p" by simp
  obtain w1 where 1: "tx_push 32 (int ?p) ?v (?w, tx_buffer (tx_data_if s)) =
      Inr (w1, tx_buffer (tx_data_if s) @ rev (drop ?p (take 32 ?v)))" "drives w1 = drives ?w" "backend_life w1 = backend_life ?w"
    using tx_push_spec [of 32 ?v ?p ?w "tx_buffer (tx_data_if s)"] lv by (simp del: length_append) blast
  have d: "drop ?p (take 32 ?v) = rev (take 32 r)" using lv by simp
  show ?thesis
    by (rule exI [of _ "say [] [] w1"])
      (use 1 d in \<open>auto simp: beat_def put_data_def Let_def p0\<close>)
qed

lemma put_beats_sends:
  assumes "r \<noteq> []"
  shows "\<exists>w1. drives w1 = drives w \<and> backend_life w1 = backend_life w \<and>
    put_beats put env (beats r) (w, s) =
      send_on_socket put env (w1, s\<lparr>tx_data_if := (tx_data_if s)\<lparr>tx_buffer := tx_buffer (tx_data_if s) @ r\<rparr>\<rparr>)"
  using assms
proof (induction r arbitrary: w s rule: beats.induct)
  case (1 r)
  show ?case
  proof (cases "length r \<le> 32")
    case True
    then have b: "beats r = beat r # []" by (subst beats.simps) simp
    obtain w1 where "put_beats put env (beats r) (w, s) =
        send_on_socket put env (w1, s\<lparr>tx_data_if := (tx_data_if s)\<lparr>tx_buffer := tx_buffer (tx_data_if s) @ r\<rparr>\<rparr>)"
        "drives w1 = drives w" "backend_life w1 = backend_life w"
      using put_data_beat [OF "1.prems", of put env "[]" w s] True b by (auto simp: Let_def bindE_put_beats)
    then show ?thesis by auto
  next
    case False
    let ?s = "s\<lparr>tx_data_if := (tx_data_if s)\<lparr>tx_buffer := tx_buffer (tx_data_if s) @ take 32 r\<rparr>\<rparr>"
    have b: "beats r = beat r # beats (drop 32 r)" using False by (subst beats.simps) simp
    obtain w1 where 2: "put_beats put env (beats r) (w, s) = put_beats put env (beats (drop 32 r)) (w1, ?s)"
        "drives w1 = drives w" "backend_life w1 = backend_life w"
      using put_data_beat [OF "1.prems", of put env "beats (drop 32 r)" w s] False b by (auto simp: Let_def)
    with "1.IH" [of w1 ?s] False show ?thesis by auto
  qed
qed

text \<open>
  C6: loopback: the beats that \<open>get_data\<close> drives for a packet, given to \<open>put_data\<close>, make the
  network side hand exactly that packet to the backend, once, and leave the transmit buffer empty.
\<close>

theorem loopback_sends_packet:
  assumes "r \<noteq> []" "tx_buffer (tx_data_if s) = []" "backend_life w \<noteq> Dead"
  shows "\<exists>w1. drives w1 = drives w \<and>
    put_beats put env (beats r) (w, s) =
      bindE (put env (instance_state s) r (w1, sim_backend s)) (\<lambda>(bytes, w, b).
        Inr (say ''==============================='' [] (say ''Bytes sent: %d'' [bytes] w), s\<lparr>sim_backend := b\<rparr>))"
proof -
  obtain w1 where w1: "drives w1 = drives w" "backend_life w1 = backend_life w"
    "put_beats put env (beats r) (w, s) =
      send_on_socket put env (w1, s\<lparr>tx_data_if := (tx_data_if s)\<lparr>tx_buffer := r\<rparr>\<rparr>)"
    using put_beats_sends [OF assms(1), of w put env s] assms(2) by auto
  have "tx_data_if s\<lparr>tx_buffer := []\<rparr> = tx_data_if s" using assms(2) by simp
  with w1 assms(3) show ?thesis
    by (intro exI [of _ "say ''Length: %d'' [sint (of_nat (length r) :: u32)]
          (say ''========Outgoing packet========'' [] w1)"])
      (simp add: send_on_socket_def Let_def)
qed

lemma tx_push_frame:
  "tx_push n pad v (w, buf) = Inr (w', buf') \<Longrightarrow> drives w' = drives w \<and> backend_life w' = backend_life w"
  by (induction n pad v "(w, buf)" arbitrary: w buf rule: tx_push.induct)
    (auto simp: res_simps split: if_splits)

context dpi_backend
begin

lemma put_data_frame:
  assumes "put_data put_io env v l p (w, s) = Inr (w', s')"
  shows "drives w' = drives w" "rx_data_if s' = rx_data_if s" "instance_state s' = instance_state s"
    "l \<Longrightarrow> tx_buffer (tx_data_if s') = []" "inv_io (sim_backend s) \<Longrightarrow> inv_io (sim_backend s')"
proof -
  note defs = put_data_def send_on_socket_def Let_def res_simps
  show "drives w' = drives w" "rx_data_if s' = rx_data_if s" "instance_state s' = instance_state s"
    "l \<Longrightarrow> tx_buffer (tx_data_if s') = []"
    using assms by (auto simp: defs split: if_splits dest!: tx_push_frame put_drives)
  show "inv_io (sim_backend s) \<Longrightarrow> inv_io (sim_backend s')"
    using assms by (auto simp: defs split: if_splits dest: put_inv)
qed

end

section \<open>Examples\<close>

text \<open>A backend that always hands over the same packet and accepts every packet.\<close>

definition const_get :: "mem get_buf_fr_io" where
  "const_get env ss = (\<lambda>(w, p). Inr (p, w, p))"

definition const_put :: "mem put_buf_on_io" where
  "const_put env ss pkt = (\<lambda>(w, p). Inr (int (length pkt), w, p))"

definition ex_net :: "mem \<Rightarrow> mem network_side" where
  "ex_net p = \<lparr>instance_state = ex_ss,
     rx_data_if = \<lparr>rx_buffer = RxNull, rx_buffer_len = 0, rx_buffer_pos = 0\<rparr>,
     tx_data_if = \<lparr>tx_buffer_len = 0, tx_buffer_pos = 0, tx_buffer = []\<rparr>, sim_backend = p\<rparr>"

lemma ex_net_rx: "rx_inv (rx_data_if (ex_net p))" "\<not> delivering (rx_data_if (ex_net p))"
  by (simp_all add: ex_net_def rx_inv_def delivering_def)

lemma ex_frame: "ip_frame (ex_pkt fl) 54"
proof -
  have "ntohs (word_of_bytes [8, 0]) = ETHERTYPE_IP" "unat (ntohs (word_of_bytes [0, 40])) + 14 = 54" by code_simp+
  then show ?thesis by (simp add: ip_frame_def ex_pkt_def)
qed

theorem get_data_delivers_frame_witness:
  "\<exists>w' rx'. get_datas const_get const_put [ex_env, ex_env]
      (\<lparr>backend_life = Alive, out = []\<rparr>, ex_net (ex_pkt TCP_SYN)) =
      Inr (w', (ex_net (ex_pkt TCP_SYN))\<lparr>rx_data_if := rx'\<rparr>) \<and>
    drives w' = beats (ex_pkt TCP_SYN) \<and> \<not> delivering rx'"
proof -
  let ?p = "ex_pkt TCP_SYN" and ?w = "\<lparr>backend_life = Alive, out = []\<rparr>"
  have "length (beats ?p) = 2" by (subst beats.simps, subst beats.simps) simp
  moreover have "const_get ex_env (instance_state (ex_net ?p)) (?w, sim_backend (ex_net ?p)) = Inr (?p, ?w, ?p)"
    by (simp add: const_get_def ex_net_def)
  ultimately show ?thesis
    using get_data_delivers_frame [of "ex_net ?p" ?w const_get ex_env ?p ?w ?p 54 "[ex_env]" const_put]
      ex_net_rx ex_frame ex_wf(2)
    by (auto simp: drives_def ex_net_def)
qed

theorem recv_from_socket_overread_witness:
  "recv_from_socket const_get const_put ex_env (\<lparr>backend_life = Alive, out = []\<rparr>, ex_net (take 40 (ex_pkt TCP_SYN))) =
    Inl OutOfBounds"
proof (rule recv_from_socket_overread [where p = "take 40 (ex_pkt TCP_SYN)" and flen = 54])
  show "ip_frame (take 40 (ex_pkt TCP_SYN)) 54"
    using ex_frame [of TCP_SYN] by (simp add: ip_frame_def drop_take)
qed (simp_all add: const_get_def ex_net_def)

theorem get_data_rx_safe_witness:
  "case get_data const_get const_put ex_env (\<lparr>backend_life = Alive, out = []\<rparr>, ex_net []) of
      Inl e \<Rightarrow> recv_from_socket const_get const_put ex_env (\<lparr>backend_life = Alive, out = []\<rparr>, ex_net []) = Inl e
    | Inr (w', s') \<Rightarrow> rx_inv (rx_data_if s')"
  by (rule get_data_rx_safe [OF ex_net_rx(1) ex_wf(2)])

theorem loopback_sends_packet_witness:
  "\<exists>w1. put_beats const_put ex_env (beats (ex_pkt TCP_SYN)) (\<lparr>backend_life = Alive, out = []\<rparr>, ex_net []) =
    Inr (w1, ex_net [])"
  using loopback_sends_packet
    [of "ex_pkt TCP_SYN" "ex_net []" "\<lparr>backend_life = Alive, out = []\<rparr>" const_put ex_env]
  by (auto simp: const_put_def ex_net_def ex_pkt_def)

end
