(* ===== verification/File_IO_Testing.thy ===== *)
theory File_IO_Testing
  imports DPI_Backend
begin

text \<open>
  The file backend \<open>FileIOTestingLib\<close> of \<^verbatim>\<open>src/sim_dpi/file_io_testing_lib.cpp\<close>: packets go to
  and come from two capture files shared with another process.
\<close>

section \<open>State and operations\<close>

record FileIOTestingLib =
  send_file :: cfile
  recv_file :: cfile

definition FileIOTestingLib_new :: "fopen \<Rightarrow> string \<Rightarrow> string \<Rightarrow> FileIOTestingLib res" where
  "FileIOTestingLib_new fopen send_file_name recv_file_name =
     (case fopen send_file_name ''ab+'' of
        None \<Rightarrow> Inl (Exit ''Failed to open hw to sw file'' 1)
      | Some sf \<Rightarrow>
          (case fopen recv_file_name ''ab+'' of
             None \<Rightarrow> Inl (Exit ''Failed to open sw to hw_file'' 1)
           | Some rf \<Rightarrow>
               Inr \<lparr>send_file = writePCAPHeader sf, recv_file = writePCAPHeader rf\<rparr>))"

text \<open>The length is kept in a variable of type \<open>uint32_t\<close>.\<close>

definition FileIO_get_buf_fr_io :: "FileIOTestingLib get_buf_fr_io" where
  "FileIO_get_buf_fr_io env ss = (\<lambda>(w, b).
     bindE (read_pcap_record (recv_file b) (stack_garbage env) w) (\<lambda>(n, buffer, rf, w).
     let packet_len = word_of_int n :: u32 in
     Inr (take (unat packet_len) buffer, w, b\<lparr>recv_file := rf\<rparr>)))"

definition FileIO_put_buf_on_io :: "FileIOTestingLib put_buf_on_io" where
  "FileIO_put_buf_on_io env ss pkt_buf = (\<lambda>(w, b).
     bindE (write_pcap_record env (send_file b) pkt_buf (of_nat (length pkt_buf)) w)
       (\<lambda>(write_len, sf, w). Inr (write_len, w, b\<lparr>send_file := sf\<rparr>)))"

section \<open>The contract\<close>

lemma write_pcap_record_frame:
  assumes "write_pcap_record env f buffer l w = Inr (n, f', w')"
  shows "drives w' = drives w \<and> backend_life w' = backend_life w \<and>
    n \<le> int (length buffer) \<and> (length buffer < 2 ^ 31 \<longrightarrow> 0 \<le> n)"
proof -
  let ?h = "pcap_pkthdr_bytes \<lparr>ts_sec = ucast (tod_sec env), ts_usec = ucast (tod_usec env),
    caplen = l, len = l\<rparr>"
  obtain k1 f1 where 1: "fwrite ?h f = (k1, f1)" by force
  obtain k2 f2 where 2: "fwrite (take (unat l) buffer) f1 = (k2, f2)" by force
  then have "k2 \<le> length buffer" using fwrite_le [OF 2] by simp
  then have "int_of_size k2 \<le> int (length buffer) \<and> (length buffer < 2 ^ 31 \<longrightarrow> 0 \<le> int_of_size k2)"
    using int_of_size_le [of k2] by auto
  moreover have "n = int_of_size k2"
    using assms 1 2 by (simp add: write_pcap_record_def load_bytes_def Let_def split: if_splits)
  ultimately show ?thesis
    using assms 1 2 by (auto simp: write_pcap_record_def load_bytes_def Let_def split: if_splits)
qed

interpretation file_io: dpi_backend FileIO_get_buf_fr_io FileIO_put_buf_on_io "\<lambda>b. True"
  by unfold_locales
    (auto simp: FileIO_get_buf_fr_io_def FileIO_put_buf_on_io_def res_simps
      dest!: read_pcap_record_frame write_pcap_record_frame)

section \<open>Two ends of a channel\<close>

text \<open>The records that a sequence of calls of \<open>put_buf_on_io\<close> appends.\<close>

definition stamp :: "sysenv \<Rightarrow> u32 \<times> u32" where
  "stamp env = (ucast (tod_sec env), ucast (tod_usec env))"

lemma write_pcap_record_appends:
  assumes "p \<noteq> []" "length p < 2 ^ 31" "16 + length p \<le> room f"
  shows "write_pcap_record env f p (of_nat (length p)) w = Inr (int (length p),
    f\<lparr>contents := contents f @ trace_bytes [stamp env] [p], fpos := length (contents f) + 16 + length p,
      room := room f - 16 - length p\<rparr>, w)"
  using assms
  by (simp add: write_pcap_record_def Let_def fwrite_room unat_of_nat load_bytes_def record_bytes_def stamp_def)

lemma FileIO_puts:
  assumes "list_all (\<lambda>p. p \<noteq> [] \<and> length p \<le> 2048) ps" "length envs = length ps"
    and "sum_list (map (\<lambda>p. 16 + length p) ps) \<le> room (send_file b)" "backend_life w \<noteq> Dead"
  shows "\<exists>b'. io_run FileIO_get_buf_fr_io FileIO_put_buf_on_io ss (map2 PutOp envs ps) (w, b) =
      Inr ([], w, b') \<and>
    contents (send_file b') = contents (send_file b) @ trace_bytes (map stamp envs) ps \<and>
    recv_file b' = recv_file b"
  using assms
proof (induction ps arbitrary: envs b)
  case Nil
  then show ?case by simp
next
  case (Cons p ps)
  then obtain env envs' where e: "envs = env # envs'" by (cases envs) auto
  let ?f = "send_file b"
  let ?b = "b\<lparr>send_file := ?f\<lparr>contents := contents ?f @ trace_bytes [stamp env] [p],
    fpos := length (contents ?f) + 16 + length p, room := room ?f - 16 - length p\<rparr>\<rparr>"
  have w: "write_pcap_record env ?f p (of_nat (length p)) w = Inr (int (length p), send_file ?b, w)"
    using write_pcap_record_appends [of p ?f env w] Cons.prems by simp
  have "FileIO_put_buf_on_io env ss p (w, b) = Inr (int (length p), w, ?b)"
    using w by (simp add: FileIO_put_buf_on_io_def)
  moreover have "\<exists>b'. io_run FileIO_get_buf_fr_io FileIO_put_buf_on_io ss (map2 PutOp envs' ps) (w, ?b) =
      Inr ([], w, b') \<and> contents (send_file b') = contents (send_file ?b) @ trace_bytes (map stamp envs') ps \<and>
      recv_file b' = recv_file ?b"
    by (rule Cons.IH) (use Cons.prems e in auto)
  moreover have "stamp env = (fst (stamp env), snd (stamp env))" by simp
  ultimately show ?case using e Cons.prems(4) trace_bytes.simps(1) [of "fst (stamp env)" "snd (stamp env)"] by auto
qed

lemma FileIO_gets:
  assumes "file_holds (recv_file b) ps" "list_all (\<lambda>p. p \<noteq> [] \<and> length p \<le> 2048) ps"
    and "list_all sysenv_wf envs" "length envs = length ps" "backend_life w \<noteq> Dead"
  shows "\<exists>s'. io_run FileIO_get_buf_fr_io FileIO_put_buf_on_io ss (map GetOp envs) (w, b) = Inr (ps, s')"
  using assms
proof (induction ps arbitrary: envs w b)
  case Nil
  then show ?case by simp
next
  case (Cons p ps)
  then obtain env envs' where e: "envs = env # envs'" by (cases envs) auto
  let ?g = "stack_garbage env"
  have l: "p \<noteq> []" "length p \<le> length ?g" "length p < 2 ^ 31" using Cons.prems e by (auto simp: sysenv_wf_def)
  obtain f' w' where r: "read_pcap_record (recv_file b) ?g w = Inr (int (length p), p @ drop (length p) ?g, f', w')"
      "file_holds f' ps"
    using read_held_record [OF Cons.prems(1) l] by blast
  have "backend_life w' \<noteq> Dead" using read_pcap_record_frame [OF r(1)] Cons.prems(5) by simp
  then have "\<exists>s'. io_run FileIO_get_buf_fr_io FileIO_put_buf_on_io ss (map GetOp envs') (w', b\<lparr>recv_file := f'\<rparr>) = Inr (ps, s')"
    by (intro Cons.IH) (use r(2) Cons.prems e in auto)
  moreover have "FileIO_get_buf_fr_io env ss (w, b) = Inr (p, w', b\<lparr>recv_file := f'\<rparr>)"
    using r(1) l by (simp add: FileIO_get_buf_fr_io_def unat_of_nat)
  ultimately show ?case using e Cons.prems(5) by auto
qed

text \<open>
  C17: two backends connected by a file form a reliable channel: packets put by one, while the file
  has room, are obtained by the other, whose stream stands where the file ended, as the same
  packets in the same order.
\<close>

theorem FileIO_channel:
  assumes ps: "list_all (\<lambda>p. p \<noteq> [] \<and> length p \<le> 2048) ps"
    and room: "sum_list (map (\<lambda>p. 16 + length p) ps) \<le> room (send_file a)"
    and envs: "length envs = length ps" "length envs' = length ps" "list_all sysenv_wf envs'"
    and w: "backend_life w \<noteq> Dead" "backend_life v \<noteq> Dead"
    and r: "\<not> feof (recv_file b)" "fpos (recv_file b) = length (contents (send_file a))"
  shows "\<exists>a' s. io_run FileIO_get_buf_fr_io FileIO_put_buf_on_io ss (map2 PutOp envs ps) (w, a) = Inr ([], w, a') \<and>
    io_run FileIO_get_buf_fr_io FileIO_put_buf_on_io ss' (map GetOp envs')
      (v, b\<lparr>recv_file := (recv_file b)\<lparr>contents := contents (send_file a')\<rparr>\<rparr>) = Inr (ps, s)"
proof -
  obtain a' where a': "io_run FileIO_get_buf_fr_io FileIO_put_buf_on_io ss (map2 PutOp envs ps) (w, a) = Inr ([], w, a')"
      "contents (send_file a') = contents (send_file a) @ trace_bytes (map stamp envs) ps"
    using FileIO_puts [OF ps envs(1) room w(1)] by blast
  let ?f = "(recv_file b)\<lparr>contents := contents (send_file a')\<rparr>"
  have "file_holds ?f ps"
    unfolding file_holds_def
    by (rule exI [of _ "contents (send_file a)"], rule exI [of _ "map stamp envs"]) (use r a'(2) envs(1) in simp)
  then have "\<exists>s. io_run FileIO_get_buf_fr_io FileIO_put_buf_on_io ss' (map GetOp envs') (v, b\<lparr>recv_file := ?f\<rparr>) = Inr (ps, s)"
    by (intro FileIO_gets) (use ps envs w in auto)
  with a'(1) show ?thesis by blast
qed

theorem FileIO_channel_witness:
  "\<exists>a' s. io_run FileIO_get_buf_fr_io FileIO_put_buf_on_io ex_ss
      (map2 PutOp [ex_env, ex_env] [[1, 2], [3]])
      (\<lparr>backend_life = Alive, out = []\<rparr>,
       \<lparr>send_file = \<lparr>contents = [], fpos = 0, feof = False, room = 100\<rparr>,
        recv_file = \<lparr>contents = [], fpos = 0, feof = False, room = 100\<rparr>\<rparr>) =
      Inr ([], \<lparr>backend_life = Alive, out = []\<rparr>, a') \<and>
    io_run FileIO_get_buf_fr_io FileIO_put_buf_on_io ex_ss (map GetOp [ex_env, ex_env])
      (\<lparr>backend_life = Alive, out = []\<rparr>,
       \<lparr>send_file = \<lparr>contents = [], fpos = 0, feof = False, room = 100\<rparr>,
        recv_file = \<lparr>contents = [], fpos = 0, feof = False, room = 100\<rparr>\<rparr>
         \<lparr>recv_file := \<lparr>contents = [], fpos = 0, feof = False, room = 100\<rparr>
            \<lparr>contents := contents (send_file a')\<rparr>\<rparr>) = Inr ([[1, 2], [3]], s)"
  using FileIO_channel
    [of "[[1, 2], [3]]"
      "\<lparr>send_file = \<lparr>contents = [], fpos = 0, feof = False, room = 100\<rparr>,
        recv_file = \<lparr>contents = [], fpos = 0, feof = False, room = 100\<rparr>\<rparr>"
      "[ex_env, ex_env]" "[ex_env, ex_env]" "\<lparr>backend_life = Alive, out = []\<rparr>" "\<lparr>backend_life = Alive, out = []\<rparr>"
      "\<lparr>send_file = \<lparr>contents = [], fpos = 0, feof = False, room = 100\<rparr>,
        recv_file = \<lparr>contents = [], fpos = 0, feof = False, room = 100\<rparr>\<rparr>" ex_ss ex_ss] ex_wf(2)
  by auto

section \<open>Polling\<close>

text \<open>
  A run of the backend while the peer writes: before each call the peer appends some bytes, possibly
  none, to the file that the backend reads.
\<close>

definition peer_appends :: "mem \<Rightarrow> FileIOTestingLib \<Rightarrow> FileIOTestingLib" where
  "peer_appends added b = b\<lparr>recv_file := (recv_file b)\<lparr>contents := contents (recv_file b) @ added\<rparr>\<rparr>"

fun shared_run :: "sock_state \<Rightarrow> (mem \<times> io_op) list \<Rightarrow> world \<times> FileIOTestingLib \<Rightarrow>
    (mem list \<times> world \<times> FileIOTestingLib) res" where
  "shared_run ss [] s = Inr ([], s)"
| "shared_run ss ((added, op) # ops) (w, b) =
     bindE (io_run FileIO_get_buf_fr_io FileIO_put_buf_on_io ss [op] (w, peer_appends added b)) (\<lambda>(ps, s).
     bindE (shared_run ss ops s) (\<lambda>(qs, s). Inr (ps @ qs, s)))"

fun is_get :: "io_op \<Rightarrow> bool" where
  "is_get (GetOp env) = True"
| "is_get (PutOp env pkt) = False"

lemma FileIO_get_at_eof:
  assumes "feof (recv_file b)"
  shows "FileIO_get_buf_fr_io env ss (w, b) = Inr ([], w, b)"
  using assms by (simp add: FileIO_get_buf_fr_io_def read_pcap_record_def fread_sticky)

lemma FileIO_put_returns:
  "\<exists>n w' b'. FileIO_put_buf_on_io env ss pkt (w, b) = Inr (n, w', b') \<and> recv_file b' = recv_file b \<and>
    backend_life w' = backend_life w"
proof -
  have "unat (of_nat (length pkt) :: u32) \<le> length pkt" by (simp add: unat_of_nat take_bit_nat_less_eq_self)
  then have "\<exists>r. write_pcap_record env (send_file b) pkt (of_nat (length pkt)) w = Inr r"
    by (simp add: write_pcap_record_def Let_def load_bytes_def split: prod.split)
  then obtain n f w' where r: "write_pcap_record env (send_file b) pkt (of_nat (length pkt)) w = Inr (n, f, w')"
    by (metis prod_cases3)
  with write_pcap_record_frame [OF r] show ?thesis by (simp add: FileIO_put_buf_on_io_def)
qed

lemma shared_run_deaf:
  "feof (recv_file b) \<Longrightarrow> backend_life w \<noteq> Dead \<Longrightarrow>
   \<exists>w' b'. shared_run ss ops (w, b) = Inr (replicate (length (filter (is_get \<circ> snd) ops)) [], w', b') \<and>
     feof (recv_file b')"
proof (induction ops arbitrary: w b)
  case (Cons x ops)
  obtain added op where x: "x = (added, op)" by force
  let ?b = "peer_appends added b"
  have e: "feof (recv_file ?b)" using Cons.prems(1) by (simp add: peer_appends_def)
  show ?case
  proof (cases op)
    case (GetOp env)
    with x e Cons.prems(2) Cons.IH [OF e Cons.prems(2)] show ?thesis by (auto simp: FileIO_get_at_eof)
  next
    case (PutOp env pkt)
    obtain n w1 b1 where 1: "FileIO_put_buf_on_io env ss pkt (w, ?b) = Inr (n, w1, b1)"
        "recv_file b1 = recv_file ?b" "backend_life w1 = backend_life w"
      using FileIO_put_returns by blast
    with Cons.IH [of b1 w1] e Cons.prems(2) x PutOp show ?thesis by auto
  qed
qed simp

text \<open>
  C38: a poll of a file that has nothing new sets the end-of-file indicator of the stream, nothing
  ever clears it, and the backend is deaf from then on: however many calls follow, in any order and
  whatever the peer appends to the file before each of them, every one returns, every request is
  answered with no packet and the indicator is still set at the end.
\<close>

theorem FileIO_deaf_after_empty_poll:
  assumes "fpos (recv_file b) = length (contents (recv_file b))" "backend_life w \<noteq> Dead"
  shows "\<exists>b1. FileIO_get_buf_fr_io env ss (w, b) = Inr ([], w, b1) \<and> feof (recv_file b1) \<and>
    (\<forall>ops. \<exists>w2 b2. shared_run ss ops (w, b1) =
       Inr (replicate (length (filter (is_get \<circ> snd) ops)) [], w2, b2) \<and> feof (recv_file b2))"
proof -
  let ?f = "recv_file b" let ?b = "b\<lparr>recv_file := ?f\<lparr>feof := True\<rparr>\<rparr>"
  have "fread 16 ?f = ([], ?f\<lparr>feof := True\<rparr>)" using assms(1) by (simp add: fread_def Let_def)
  then have "FileIO_get_buf_fr_io env ss (w, b) = Inr ([], w, ?b)"
    by (simp add: FileIO_get_buf_fr_io_def read_pcap_record_def)
  moreover have "feof (recv_file ?b)" by simp
  ultimately show ?thesis using shared_run_deaf [OF _ assms(2)] by blast
qed

text \<open>
  The example: nothing in the file, then the peer writes a whole record, the hardware sends a
  packet, and two more requests still find nothing.
\<close>

theorem FileIO_deaf_after_empty_poll_witness:
  "\<exists>b1 w2 b2. FileIO_get_buf_fr_io ex_env ex_ss (\<lparr>backend_life = Alive, out = []\<rparr>,
      \<lparr>send_file = \<lparr>contents = [], fpos = 0, feof = False, room = 100\<rparr>,
       recv_file = \<lparr>contents = [], fpos = 0, feof = False, room = 100\<rparr>\<rparr>) =
      Inr ([], \<lparr>backend_life = Alive, out = []\<rparr>, b1) \<and>
    shared_run ex_ss [(record_bytes 0 0 [1, 2], GetOp ex_env), ([], PutOp ex_env [7]), ([], GetOp ex_env)]
      (\<lparr>backend_life = Alive, out = []\<rparr>, b1) = Inr ([[], []], w2, b2) \<and> feof (recv_file b2)"
proof -
  let ?ops = "[(record_bytes 0 0 [1, 2], GetOp ex_env), ([], PutOp ex_env [7]), ([], GetOp ex_env)]"
  let ?w = "\<lparr>backend_life = Alive, out = []\<rparr>" and ?f = "\<lparr>contents = [], fpos = 0, feof = False, room = 100\<rparr>"
  obtain b1 where b1: "FileIO_get_buf_fr_io ex_env ex_ss (?w, \<lparr>send_file = ?f, recv_file = ?f\<rparr>) = Inr ([], ?w, b1)"
      "\<And>ops. \<exists>w2 b2. shared_run ex_ss ops (?w, b1) =
        Inr (replicate (length (filter (is_get \<circ> snd) ops)) [], w2, b2) \<and> feof (recv_file b2)"
    using FileIO_deaf_after_empty_poll [of "\<lparr>send_file = ?f, recv_file = ?f\<rparr>" ?w ex_env ex_ss] by auto
  have "replicate (length (filter (is_get \<circ> snd) ?ops)) [] = [[], [] :: mem]" by simp
  with b1(1) b1(2) [of ?ops] show ?thesis by metis
qed

end
