(* ===== verification/Packet_Compare.thy ===== *)
theory Packet_Compare
  imports DPI_Backend
begin

text \<open>
  What the comparison of packets by the two trace backends should report, and that the comparison
  loop reports it: one line per differing byte of two packets of the same size.
\<close>

section \<open>What is reported\<close>

definition is_mismatch :: "event \<Rightarrow> bool" where
  "is_mismatch e =
     (case e of
        Print fmt _ \<Rightarrow> fmt = ''recved pkt different at byte %d. Expected %hhx, Got %hhx''
      | _ \<Rightarrow> False)"

definition mismatches :: "world \<Rightarrow> event list" where
  "mismatches w = filter is_mismatch (out w)"

text \<open>The reports two packets of the same size deserve: one per differing byte, in order.\<close>

definition diff_reports :: "mem \<Rightarrow> mem \<Rightarrow> event list" where
  "diff_reports r t =
     map (\<lambda>k. Print ''recved pkt different at byte %d. Expected %hhx, Got %hhx''
                [int k, uint (r ! k), uint (t ! k)])
       (filter (\<lambda>k. r ! k \<noteq> t ! k) [0..<length r])"

definition same_sizes :: "(mem \<times> mem) list \<Rightarrow> bool" where
  "same_sizes ps \<longleftrightarrow> list_all (\<lambda>(r, t). length r = length t) ps"

definition reports :: "(mem \<times> mem) list \<Rightarrow> event list" where
  "reports ps = concat (map (\<lambda>(r, t). diff_reports r t) ps)"

lemma diff_reports_empty_iff: "length r = length t \<Longrightarrow> diff_reports r t = [] \<longleftrightarrow> r = t"
proof -
  assume l: "length r = length t"
  have "diff_reports r t = [] \<longleftrightarrow> (\<forall>k < length r. r ! k = t ! k)"
    by (auto simp: diff_reports_def filter_empty_conv)
  also have "\<dots> \<longleftrightarrow> r = t" using l by (auto intro: nth_equalityI)
  finally show ?thesis .
qed

lemma reports_append [simp]: "reports (xs @ ys) = reports xs @ reports ys"
  by (simp add: reports_def)

lemma reports_Cons [simp]: "reports ((r, t) # ys) = diff_reports r t @ reports ys"
  by (simp add: reports_def)

lemma reports_Nil [simp]: "reports [] = []"
  by (simp add: reports_def)

lemma reports_empty_iff: "same_sizes ps \<Longrightarrow> reports ps = [] \<longleftrightarrow> (\<forall>(r, t) \<in> set ps. r = t)"
  by (induction ps) (auto simp: same_sizes_def diff_reports_empty_iff)

lemma mismatches_say [simp]:
  "fmt \<noteq> ''recved pkt different at byte %d. Expected %hhx, Got %hhx'' \<Longrightarrow>
   mismatches (say fmt args w) = mismatches w"
  by (simp add: mismatches_def is_mismatch_def)

lemma mismatches_finish [simp]: "mismatches (emit FinishFromC w) = mismatches w"
  by (simp add: mismatches_def is_mismatch_def)

lemma mismatches_life [simp]: "mismatches (w\<lparr>backend_life := l\<rparr>) = mismatches w"
  by (simp add: mismatches_def)

text \<open>The calls of \<open>finish_from_c\<close>.\<close>

definition finishes :: "world \<Rightarrow> nat" where
  "finishes w = length (filter (\<lambda>e. e = FinishFromC) (out w))"

lemma finishes_say [simp]: "finishes (say fmt args w) = finishes w"
  by (simp add: finishes_def)

lemma finishes_life [simp]: "finishes (w\<lparr>backend_life := l\<rparr>) = finishes w"
  by (simp add: finishes_def)

lemma finishes_finish [simp]: "finishes (emit FinishFromC w) = Suc (finishes w)"
  by (simp add: finishes_def)

lemma finishes_compare_loop: "length r = length t \<Longrightarrow> finishes (compare_loop i r t w) = finishes w"
  by (simp add: finishes_def compare_loop_out filter_map comp_def)

lemma mismatches_compare_loop:
  "length r = length t \<Longrightarrow> mismatches (compare_loop 0 r t w) = mismatches w @ diff_reports r t"
  by (simp add: mismatches_def compare_loop_out diff_reports_def is_mismatch_def filter_map comp_def)

lemma same_sizes_take: "same_sizes xs \<Longrightarrow> same_sizes (take n xs)"
  by (metis append_take_drop_id list_all_append same_sizes_def)

lemma same_sizes_drop: "same_sizes xs \<Longrightarrow> same_sizes (drop n xs)"
  by (metis append_take_drop_id list_all_append same_sizes_def)

end
