(* ===== verification/Pcap_Trace_Testing.thy ===== *)
theory Pcap_Trace_Testing
  imports Packet_Compare
begin

text \<open>
  The trace backend \<open>PcapTestingLib\<close> of \<^verbatim>\<open>src/sim_dpi/pcap_trace_testing_lib.cpp\<close>: it loads a
  whole capture, hands out the packets addressed to the simulated host in order, and compares
  what the hardware sends with the others, in order.
\<close>

section \<open>State and operations\<close>

record PcapTestingLib =
  send_pkts :: "mem list"
  recv_pkts :: "mem list"

text \<open>
  \<open>fill_pkt_vectors\<close>: read a record, and while there is one, sort it by its destination
  address into one of the two queues. The array \<open>buffer\<close> is the same in every round.
\<close>

function fill_loop ::
  "sock_state \<Rightarrow> cfile \<Rightarrow> mem \<Rightarrow> world \<Rightarrow> PcapTestingLib \<Rightarrow> (world \<times> PcapTestingLib) res" where
  "fill_loop ss pcap_file buffer w b =
     bindE (read_pcap_record pcap_file buffer w) (\<lambda>(bytes_read, buffer, pcap_file, w).
     if bytes_read > 0 then
       bindE (is_our_mac buffer ss) (\<lambda>send_packet.
       let pkt_buf = take (nat bytes_read) buffer;
           b = (if send_packet then b\<lparr>send_pkts := send_pkts b @ [pkt_buf]\<rparr>
                else b\<lparr>recv_pkts := recv_pkts b @ [pkt_buf]\<rparr>)
       in fill_loop ss pcap_file buffer w b)
     else Inr (w, b))"
  by pat_completeness auto
termination
proof (relation "measure (\<lambda>(ss, f, buffer, w, b). length (contents f) - fpos f)", goal_cases)
  case 1
  show ?case by simp
next
  case (2 ss f buffer w b r n rest buffer' rest' f' w' sp pkt b')
  then show ?case using read_pcap_record_advances [of f buffer w n buffer' f' w'] by auto
qed

declare fill_loop.simps [simp del]

definition fill_pkt_vectors ::
  "sysenv \<Rightarrow> sock_state \<Rightarrow> cfile \<Rightarrow> world \<Rightarrow> PcapTestingLib \<Rightarrow> (world \<times> PcapTestingLib) res" where
  "fill_pkt_vectors env ss pcap_file w b = fill_loop ss pcap_file (stack_garbage env) w b"

definition PcapTestingLib_new ::
  "fopen \<Rightarrow> sysenv \<Rightarrow> string \<Rightarrow> sock_state \<Rightarrow> world \<Rightarrow> (world \<times> PcapTestingLib) res" where
  "PcapTestingLib_new fopen env pcap_filename ss w =
     (case fopen pcap_filename ''rb'' of
        None \<Rightarrow> Inl (Exit ''Failed to open pcap file'' 1)
      | Some pcap_file \<Rightarrow>
          let (r, pcap_file) = consumePCAPHeader pcap_file in
          bindE (if r < 0 then finish_simulation (say ''Error reading PCAP file header'' [] w)
                 else Inr w) (\<lambda>w.
          fill_pkt_vectors env ss pcap_file w \<lparr>send_pkts = [], recv_pkts = []\<rparr>))"

definition Pcap_get_buf_fr_io :: "PcapTestingLib get_buf_fr_io" where
  "Pcap_get_buf_fr_io env ss = (\<lambda>(w, b).
     case send_pkts b of
       [] \<Rightarrow> Inr ([], w, b)
     | pkt_buf # rest \<Rightarrow> Inr (pkt_buf, w, b\<lparr>send_pkts := rest\<rparr>))"

definition Pcap_compare_bufs :: "mem \<Rightarrow> mem \<Rightarrow> world \<Rightarrow> world res" where
  "Pcap_compare_bufs ref_buf recved_buf w =
     (if length ref_buf \<noteq> length recved_buf
      then finish_simulation (say ''recved pkt different size'' [] w)
      else Inr (compare_loop 0 ref_buf recved_buf w))"

text \<open>After \<open>compare_bufs\<close> the object's own queue is read again.\<close>

definition Pcap_put_buf_on_io :: "PcapTestingLib put_buf_on_io" where
  "Pcap_put_buf_on_io env ss pkt_buf = (\<lambda>(w, b).
     bindE (case recv_pkts b of
              [] \<Rightarrow> Inr (say ''got a packet not in the trace'' [] w, b)
            | ref_pkt # rest \<Rightarrow>
                let b = b\<lparr>recv_pkts := rest\<rparr> in
                bindE (Pcap_compare_bufs ref_pkt pkt_buf w) (\<lambda>w.
                bindE (alive w) (\<lambda>_.
                let w = say ''Packets left: %d'' [int_of_size (length (recv_pkts b))] w in
                if recv_pkts b = [] then
                  bindE (finish_simulation (say ''All packets received'' [] w)) (\<lambda>w. Inr (w, b))
                else Inr (w, b))))
       (\<lambda>(w, b). Inr (int_of_size (length pkt_buf), w, b)))"

definition get_packets_to_send :: "PcapTestingLib \<Rightarrow> u32" where
  "get_packets_to_send b = of_nat (length (send_pkts b))"

definition get_packets_to_recv :: "PcapTestingLib \<Rightarrow> u32" where
  "get_packets_to_recv b = of_nat (length (recv_pkts b))"

section \<open>The contract\<close>

lemma Pcap_compare_bufs_frame:
  "Pcap_compare_bufs r t w = Inr w' \<Longrightarrow>
   drives w' = drives w \<and> (backend_life w' = backend_life w \<or> backend_life w' = Dead)"
  by (auto simp: Pcap_compare_bufs_def split: if_splits
      dest: finish_simulation_drives finish_simulation_life)

interpretation pcap_trace: dpi_backend Pcap_get_buf_fr_io Pcap_put_buf_on_io "\<lambda>b. True"
proof unfold_locales
  fix env ss w b n w' b' and pkt :: mem
  assume p: "Pcap_put_buf_on_io env ss pkt (w, b) = Inr (n, w', b')"
  show "drives w' = drives w" "backend_life w' = backend_life w \<or> backend_life w' = Dead"
    using p
    by (auto simp: Pcap_put_buf_on_io_def res_simps Let_def split: list.splits if_splits
        dest!: Pcap_compare_bufs_frame dest: finish_simulation_drives finish_simulation_life)
  show "n \<le> int (length pkt) \<and> (length pkt < 2 ^ 31 \<longrightarrow> 0 \<le> n)"
    using p int_of_size_le [of "length pkt"] by (auto simp: Pcap_put_buf_on_io_def res_simps)
qed (auto simp: Pcap_get_buf_fr_io_def split: list.splits)

section \<open>Loading a capture\<close>

lemma for_us_append: "6 \<le> length p \<Longrightarrow> for_us ss (p @ q) \<longleftrightarrow> for_us ss p"
  by (simp add: for_us_def)

lemma fill_loop_partitions:
  assumes ss: "sock_state_wf ss"
  shows "file_holds f ps \<Longrightarrow> length buffer = 2048 \<Longrightarrow> \<forall>p \<in> set ps. 6 \<le> length p \<and> length p \<le> 2048 \<Longrightarrow>
    \<exists>w'. fill_loop ss f buffer w b =
      Inr (w', b\<lparr>send_pkts := send_pkts b @ filter (for_us ss) ps,
                 recv_pkts := recv_pkts b @ filter (\<lambda>p. \<not> for_us ss p) ps\<rparr>) \<and>
      backend_life w' = backend_life w"
proof (induction ps arbitrary: f buffer w b)
  case Nil
  then obtain f' where "read_pcap_record f buffer w = Inr (0, buffer, f', w)"
    using read_held_nothing by blast
  then show ?case by (subst fill_loop.simps) simp
next
  case (Cons p ps)
  let ?buf = "p @ drop (length p) buffer"
  let ?b = "if for_us ss p then b\<lparr>send_pkts := send_pkts b @ [p]\<rparr> else b\<lparr>recv_pkts := recv_pkts b @ [p]\<rparr>"
  from Cons.prems have l: "p \<noteq> []" "length p \<le> length buffer" "length p < 2 ^ 31" "6 \<le> length p" by auto
  obtain f' w' where r: "read_pcap_record f buffer w = Inr (int (length p), ?buf, f', w')" "file_holds f' ps"
    using read_held_record [OF Cons.prems(1) l(1-3)] by blast
  have life: "backend_life w' = backend_life w" using read_pcap_record_frame [OF r(1)] by simp
  have mac: "is_our_mac ?buf ss = Inr (for_us ss p)"
    using is_our_mac_iff [of ?buf ss] ss l for_us_append [OF l(4)] by (simp add: sock_state_wf_def)
  have "fill_loop ss f buffer w b = fill_loop ss f' ?buf w' ?b"
    using r(1) mac l by (subst fill_loop.simps) simp
  moreover have "length ?buf = 2048" using Cons.prems(2) l by simp
  ultimately show ?case
    using Cons.IH [OF r(2), of ?buf w' ?b] Cons.prems(3) life by auto
qed

lemma fill_loop_bounded:
  "fill_loop ss f buffer w b = Inr (w', b') \<Longrightarrow> fpos f \<le> length (contents f) \<Longrightarrow>
   \<exists>xs ys. send_pkts b' = send_pkts b @ xs \<and> recv_pkts b' = recv_pkts b @ ys \<and>
     list_all (\<lambda>p. 0 < length p \<and> length p \<le> length buffer) (xs @ ys) \<and>
     fpos f + sum_list (map (\<lambda>p. 16 + length p) (xs @ ys)) \<le> length (contents f)"
proof (induction ss f buffer w b rule: fill_loop.induct)
  case (1 ss f buffer w b)
  from "1.prems"(1) obtain n buf f1 w1 where r: "read_pcap_record f buffer w = Inr (n, buf, f1, w1)"
    by (subst (asm) fill_loop.simps) (auto simp: res_simps)
  show ?case
  proof (cases "0 < n")
    case False
    with "1.prems" r show ?thesis by (subst (asm) fill_loop.simps) auto
  next
    case True
    note a = read_pcap_record_advances [OF r True]
    have n: "nat n \<le> length buf" using read_pcap_record_frame [OF r] by simp
    let ?p = "take (nat n) buf"
    let ?b = "\<lambda>sp. if sp then b\<lparr>send_pkts := send_pkts b @ [?p]\<rparr> else b\<lparr>recv_pkts := recv_pkts b @ [?p]\<rparr>"
    from "1.prems"(1) r True obtain sp where
      sp: "is_our_mac buf ss = Inr sp" "fill_loop ss f1 buf w1 (?b sp) = Inr (w', b')"
      by (subst (asm) fill_loop.simps) (auto simp: res_simps Let_def)
    obtain xs ys where "send_pkts b' = send_pkts (?b sp) @ xs" "recv_pkts b' = recv_pkts (?b sp) @ ys"
       "list_all (\<lambda>p. 0 < length p \<and> length p \<le> length buf) (xs @ ys)"
       "fpos f1 + sum_list (map (\<lambda>p. 16 + length p) (xs @ ys)) \<le> length (contents f1)"
      using "1.IH" [OF r refl refl refl True sp(1) refl refl sp(2)] a by auto
    with a n True show ?thesis
      by (intro exI [of _ "if sp then ?p # xs else xs"] exI [of _ "if sp then ys else ?p # ys"])
        (auto simp: min_def)
  qed
qed

text \<open>
  The loop with a limit on the number of calls of \<open>read_pcap_record\<close>: \<open>None\<close> when it would make
  another one.
\<close>

fun fill_rounds ::
  "nat \<Rightarrow> sock_state \<Rightarrow> cfile \<Rightarrow> mem \<Rightarrow> world \<Rightarrow> PcapTestingLib \<Rightarrow> (world \<times> PcapTestingLib) res option" where
  "fill_rounds 0 ss pcap_file buffer w b = None"
| "fill_rounds (Suc n) ss pcap_file buffer w b =
     (case read_pcap_record pcap_file buffer w of
        Inl e \<Rightarrow> Some (Inl e)
      | Inr (bytes_read, buffer, pcap_file, w) \<Rightarrow>
          if bytes_read > 0 then
            (case is_our_mac buffer ss of
               Inl e \<Rightarrow> Some (Inl e)
             | Inr send_packet \<Rightarrow>
                 let pkt_buf = take (nat bytes_read) buffer;
                     b = (if send_packet then b\<lparr>send_pkts := send_pkts b @ [pkt_buf]\<rparr>
                          else b\<lparr>recv_pkts := recv_pkts b @ [pkt_buf]\<rparr>)
                 in fill_rounds n ss pcap_file buffer w b)
          else Some (Inr (w, b)))"

lemma fill_rounds_enough:
  "(length (contents f) - fpos f) div 17 < n \<Longrightarrow>
   fill_rounds n ss f buffer w b = Some (fill_loop ss f buffer w b)"
proof (induction n arbitrary: f buffer w b)
  case (Suc n)
  show ?case
  proof (cases "read_pcap_record f buffer w")
    case (Inl e)
    then show ?thesis by (simp add: fill_loop.simps [of ss f])
  next
    case (Inr r)
    obtain m buf f1 w1 where r: "r = (m, buf, f1, w1)" by (cases r) auto
    show ?thesis
    proof (cases "0 < m")
      case False
      with Inr r show ?thesis by (simp add: fill_loop.simps [of ss f])
    next
      case True
      have "fpos f + 17 \<le> fpos f1" "fpos f1 \<le> length (contents f)" "contents f1 = contents f"
        using read_pcap_record_advances [of f buffer w m buf f1 w1] Inr r True by auto
      then have "(length (contents f1) - fpos f1) + 17 \<le> length (contents f) - fpos f" by simp
      from div_le_mono [OF this, of 17] have "(length (contents f1) - fpos f1) div 17 < n"
        using Suc.prems by simp
      with Suc.IH Inr r True show ?thesis
        by (cases "is_our_mac buf ss") (simp_all add: fill_loop.simps [of ss f] Let_def)
    qed
  qed
qed simp

lemma fill_loop_past_end:
  assumes "length (contents f) < fpos f" "fill_loop ss f buffer w b = Inr (w', b')"
  shows "b' = b"
proof -
  have "fst (fread 16 f) = []" using assms(1) by (simp add: fread_def Let_def)
  then obtain f1 where "fread 16 f = ([], f1)" by (metis prod.collapse)
  with assms(2) show ?thesis by (subst (asm) fill_loop.simps) (simp add: read_pcap_record_def)
qed

text \<open>
  C15: loading stops on every file, whatever is in it and whether or not it faults: the loop ends
  after at most one call of \<open>read_pcap_record\<close> per seventeen bytes that are left of the file, and one
  more. When it ends without a fault, each packet that was loaded is not empty, fits the array it was
  read into and used up sixteen bytes of header and its own size of the file.
\<close>

theorem fill_pkt_vectors_bounded:
  "fill_rounds (Suc ((length (contents f) - fpos f) div 17)) ss f (stack_garbage env) w b =
     Some (fill_pkt_vectors env ss f w b) \<and>
   (\<forall>w' b'. fill_pkt_vectors env ss f w b = Inr (w', b') \<longrightarrow>
     (\<exists>xs ys. send_pkts b' = send_pkts b @ xs \<and> recv_pkts b' = recv_pkts b @ ys \<and>
       list_all (\<lambda>p. 0 < length p \<and> length p \<le> length (stack_garbage env)) (xs @ ys) \<and>
       sum_list (map (\<lambda>p. 16 + length p) (xs @ ys)) \<le> length (contents f) - fpos f))"
proof (intro conjI allI impI)
  fix w' b' assume r: "fill_pkt_vectors env ss f w b = Inr (w', b')"
  show "\<exists>xs ys. send_pkts b' = send_pkts b @ xs \<and> recv_pkts b' = recv_pkts b @ ys \<and>
       list_all (\<lambda>p. 0 < length p \<and> length p \<le> length (stack_garbage env)) (xs @ ys) \<and>
       sum_list (map (\<lambda>p. 16 + length p) (xs @ ys)) \<le> length (contents f) - fpos f"
  proof (cases "fpos f \<le> length (contents f)")
    case True
    with fill_loop_bounded [of ss f "stack_garbage env" w b w' b'] r show ?thesis
      by (auto simp: fill_pkt_vectors_def le_diff_conv2 add.commute)
  next
    case False
    with fill_loop_past_end [of f ss "stack_garbage env" w b w' b'] r have "b' = b"
      by (simp add: fill_pkt_vectors_def)
    then show ?thesis by (intro exI [of _ "[]"]) simp
  qed
qed (simp add: fill_pkt_vectors_def fill_rounds_enough del: fill_rounds.simps)

text \<open>The examples: the capture above, and a file whose first record is cut short, which faults at once.\<close>

theorem fill_pkt_vectors_bounded_witness:
  "(\<exists>w' b'. fill_pkt_vectors ex_env ex_ss (ex_file\<lparr>fpos := 24\<rparr>) \<lparr>backend_life = NullPtr, out = []\<rparr>
      \<lparr>send_pkts = [], recv_pkts = []\<rparr> = Inr (w', b') \<and>
    sum_list (map (\<lambda>p. 16 + length p) (send_pkts b' @ recv_pkts b')) \<le> 140) \<and>
   fill_rounds 1 ex_ss \<lparr>contents = [1, 2, 3], fpos = 0, feof = False, room = 0\<rparr> (stack_garbage ex_env)
     \<lparr>backend_life = NullPtr, out = []\<rparr> \<lparr>send_pkts = [], recv_pkts = []\<rparr> = Some (Inl Uninitialised)"
proof (rule conjI)
  let ?f = "ex_file\<lparr>fpos := 24\<rparr>" and ?ps = "[ex_pkt TCP_SYN, ex_pkt TCP_ACK]"
  let ?w = "\<lparr>backend_life = NullPtr, out = []\<rparr>" and ?b = "\<lparr>send_pkts = [], recv_pkts = []\<rparr>"
  have h: "file_holds ?f ?ps"
    unfolding file_holds_def ex_file_def
    by (rule exI [of _ pcap_header_bytes], rule exI [of _ "[(0, 0), (1, 0)]"]) (simp add: pcap_header_bytes_def)
  have l: "length (contents ?f) = 164" by (simp add: ex_file_def pcap_header_bytes_def)
  obtain w' b' where r: "fill_pkt_vectors ex_env ex_ss ?f ?w ?b = Inr (w', b')"
    using fill_loop_partitions [OF ex_wf(1) h, of "stack_garbage ex_env"] ex_wf(2)
    by (fastforce simp: fill_pkt_vectors_def sysenv_wf_def)
  with fill_pkt_vectors_bounded [of ?f ex_ss ex_env ?w ?b] l
  show "\<exists>w' b'. fill_pkt_vectors ex_env ex_ss ?f ?w ?b = Inr (w', b') \<and>
      sum_list (map (\<lambda>p. 16 + length p) (send_pkts b' @ recv_pkts b')) \<le> 140"
    by auto
  let ?g = "\<lparr>contents = [1, 2, 3], fpos = 0, feof = False, room = 0\<rparr>"
  have "fill_pkt_vectors ex_env ex_ss ?g ?w ?b = Inl Uninitialised"
    by (simp add: fill_pkt_vectors_def fill_loop.simps [of ex_ss ?g] read_pcap_record_def fread_def Let_def)
  with fill_pkt_vectors_bounded [of ?g ex_ss ex_env ?w ?b]
  show "fill_rounds 1 ex_ss ?g (stack_garbage ex_env) ?w ?b = Some (Inl Uninitialised)"
    by (simp del: fill_rounds.simps)
qed

text \<open>
  C14: on a capture file the constructor returns a backend that holds exactly the packets of the
  file, in order: those addressed to the simulated host are to be sent, all others are expected.
\<close>

theorem PcapTestingLib_new_partitions:
  assumes "sock_state_wf ss" "sysenv_wf env" "fopen name ''rb'' = Some f" "pcap_trace_file f ps"
    and "\<forall>p \<in> set ps. 6 \<le> length p \<and> length p \<le> 2048"
  shows "\<exists>w'. PcapTestingLib_new fopen env name ss w =
    Inr (w', \<lparr>send_pkts = filter (for_us ss) ps, recv_pkts = filter (\<lambda>p. \<not> for_us ss p) ps\<rparr>) \<and>
    backend_life w' = backend_life w"
proof -
  obtain g where c: "consumePCAPHeader f = (0, g)" and g: "file_holds g ps"
    using consume_trace_file [OF assms(4)] by blast
  have "length (stack_garbage env) = 2048" using assms(2) by (simp add: sysenv_wf_def)
  from fill_loop_partitions [OF assms(1) g this assms(5), of w "\<lparr>send_pkts = [], recv_pkts = []\<rparr>"] c assms(3)
  show ?thesis by (simp add: PcapTestingLib_new_def fill_pkt_vectors_def)
qed

theorem PcapTestingLib_new_partitions_witness:
  "\<exists>w'. PcapTestingLib_new (\<lambda>_ _. Some ex_file) ex_env [] ex_ss \<lparr>backend_life = NullPtr, out = []\<rparr> =
    Inr (w', \<lparr>send_pkts = [ex_pkt TCP_SYN, ex_pkt TCP_ACK], recv_pkts = []\<rparr>)"
proof -
  have "for_us ex_ss (ex_pkt TCP_SYN)" "for_us ex_ss (ex_pkt TCP_ACK)" by code_simp+
  then show ?thesis
    using PcapTestingLib_new_partitions
      [of ex_ss ex_env "\<lambda>_ _. Some ex_file" "[]" ex_file "[ex_pkt TCP_SYN, ex_pkt TCP_ACK]"
        "\<lparr>backend_life = NullPtr, out = []\<rparr>"] ex_wf
    by auto
qed

section \<open>Comparing\<close>

lemma Pcap_put_same_size:
  assumes "backend_life w = Alive" "recv_pkts b = r # rs" "length r = length t"
  shows "\<exists>w'. Pcap_put_buf_on_io env ss t (w, b) = Inr (int_of_size (length t), w', b\<lparr>recv_pkts := rs\<rparr>) \<and>
    mismatches w' = mismatches w @ diff_reports r t \<and>
    backend_life w' = (if rs = [] then Dead else Alive) \<and>
    finishes w' = finishes w + (if rs = [] then 1 else 0)"
  using assms
  by (auto simp: Pcap_put_buf_on_io_def Pcap_compare_bufs_def Let_def mismatches_compare_loop
      finishes_compare_loop)

text \<open>
  C16: when the hardware sends as many packets as are expected, each of the size of its partner,
  every call returns, exactly the differing bytes of the i-th packet against the i-th expected one
  are reported, and the simulation is finished once, with the last packet.
\<close>

theorem Pcap_puts_compare:
  assumes "backend_life w = Alive" "recv_pkts b \<noteq> []" "length ts = length (recv_pkts b)"
    and "same_sizes (zip (recv_pkts b) ts)"
  shows "\<exists>w'. io_run Pcap_get_buf_fr_io Pcap_put_buf_on_io ss (map (PutOp env) ts) (w, b) =
      Inr ([], w', b\<lparr>recv_pkts := []\<rparr>) \<and>
    mismatches w' = mismatches w @ reports (zip (recv_pkts b) ts) \<and>
    backend_life w' = Dead \<and> finishes w' = Suc (finishes w)"
  using assms
proof (induction ts arbitrary: w b)
  case (Cons t ts)
  from Cons.prems obtain r rs where b: "recv_pkts b = r # rs" by (cases "recv_pkts b") auto
  with Cons.prems have l: "length r = length t" "length ts = length rs" "same_sizes (zip rs ts)"
    by (simp_all add: same_sizes_def)
  let ?b = "b\<lparr>recv_pkts := rs\<rparr>"
  obtain w1 where 1: "Pcap_put_buf_on_io env ss t (w, b) = Inr (int_of_size (length t), w1, ?b)"
      "mismatches w1 = mismatches w @ diff_reports r t" "backend_life w1 = (if rs = [] then Dead else Alive)"
      "finishes w1 = finishes w + (if rs = [] then 1 else 0)"
    using Pcap_put_same_size [OF Cons.prems(1) b l(1)] by blast
  show ?case
  proof (cases "rs = []")
    case True
    with 1 b l Cons.prems(1) show ?thesis by simp
  next
    case False
    with Cons.IH [of w1 ?b] 1 l show ?thesis using Cons.prems(1) b by auto
  qed
qed simp

theorem Pcap_puts_compare_witness:
  "\<exists>w'. io_run Pcap_get_buf_fr_io Pcap_put_buf_on_io
      ex_ss
      (map (PutOp ex_env) [[1, 2], [4]])
      (\<lparr>backend_life = Alive, out = []\<rparr>, \<lparr>send_pkts = [], recv_pkts = [[1, 2], [3]]\<rparr>) =
      Inr ([], w', \<lparr>send_pkts = [], recv_pkts = []\<rparr>) \<and>
    mismatches w' = [Print ''recved pkt different at byte %d. Expected %hhx, Got %hhx'' [0, 3, 4]]"
  using Pcap_puts_compare
    [of "\<lparr>backend_life = Alive, out = []\<rparr>" "\<lparr>send_pkts = [], recv_pkts = [[1, 2], [3]]\<rparr>" "[[1, 2], [4]]"
      ex_ss
      ex_env]
  by (auto simp: same_sizes_def mismatches_def diff_reports_def upt_rec)

text \<open>
  C35: a packet of another size than expected makes the backend use its own queue after
  \<open>finish_simulation\<close> has deleted the backend.
\<close>

theorem Pcap_put_size_mismatch:
  assumes "backend_life w = Alive" "recv_pkts b = r # rs" "length r \<noteq> length t"
  shows "Pcap_put_buf_on_io env ss t (w, b) = Inl UseAfterFree"
  using assms by (simp add: Pcap_put_buf_on_io_def Pcap_compare_bufs_def Let_def)

theorem Pcap_put_size_mismatch_witness:
  "Pcap_put_buf_on_io ex_env
      ex_ss [1]
      (\<lparr>backend_life = Alive, out = []\<rparr>, \<lparr>send_pkts = [], recv_pkts = [[1, 2], [3]]\<rparr>) = Inl UseAfterFree"
  by (rule Pcap_put_size_mismatch [of _ _ "[1, 2]" "[[3]]"]) simp_all

end
