(* ===== verification/TCP_Mimic.thy ===== *)
theory TCP_Mimic
  imports DPI_Backend
begin

text \<open>
  The per-flow context \<open>TCPMimic\<close> of \<^verbatim>\<open>src/sim_dpi/tcp_pcap_trace_testing_lib.cpp\<close>: the sequence
  numbers of the two ends of a flow and three packet queues.

  The constructor sets \<open>handshake_done\<close> only; the four numbers are indeterminate until they are
  assigned (\<open>None\<close> here), and using one before that is a fault. The queues are \<open>std::queue\<close>:
  \<open>front\<close> and \<open>pop\<close> of an empty one are undefined.

  The locale \<open>fifo\<close> is the contract of such a queue member; each of the three members interprets
  it, and the clients use its lemma that draining gives back what was put in, in order.
\<close>

section \<open>State\<close>

record TCPMimic =
  handshake_done :: bool
  my_seq :: "u32 option"
  my_expected_ack :: "u32 option"
  their_seq :: "u32 option"
  their_expected_ack :: "u32 option"
  pkts_recved_buf :: "mem list"
  pkts_to_recv :: "mem list"
  pkts_to_send :: "mem list"

definition TCPMimic_new :: "bool \<Rightarrow> TCPMimic" where
  "TCPMimic_new done =
     \<lparr>handshake_done = done, my_seq = None, my_expected_ack = None, their_seq = None,
      their_expected_ack = None, pkts_recved_buf = [], pkts_to_recv = [], pkts_to_send = []\<rparr>"

section \<open>Operations\<close>

definition update_my_ack :: "u32 \<Rightarrow> TCPMimic \<Rightarrow> (u32 \<times> TCPMimic) res" where
  "update_my_ack buf_len m =
     (case my_expected_ack m of
        None \<Rightarrow> Inl Uninitialised
      | Some return_val \<Rightarrow> Inr (return_val, m\<lparr>my_expected_ack := Some (return_val + buf_len)\<rparr>))"

definition update_their_ack :: "u32 \<Rightarrow> TCPMimic \<Rightarrow> (u32 \<times> TCPMimic) res" where
  "update_their_ack buf_len m =
     (case their_expected_ack m of
        None \<Rightarrow> Inl Uninitialised
      | Some return_val \<Rightarrow> Inr (return_val, m\<lparr>their_expected_ack := Some (return_val + buf_len)\<rparr>))"

definition set_my_seq :: "u32 \<Rightarrow> TCPMimic \<Rightarrow> TCPMimic" where
  "set_my_seq n m = m\<lparr>my_seq := Some n\<rparr>"

definition set_their_seq :: "u32 \<Rightarrow> TCPMimic \<Rightarrow> TCPMimic" where
  "set_their_seq n m = m\<lparr>their_seq := Some n\<rparr>"

definition set_my_ack :: "u32 \<Rightarrow> TCPMimic \<Rightarrow> TCPMimic" where
  "set_my_ack n m = m\<lparr>my_expected_ack := Some n\<rparr>"

definition set_their_ack :: "u32 \<Rightarrow> TCPMimic \<Rightarrow> TCPMimic" where
  "set_their_ack n m = m\<lparr>their_expected_ack := Some n\<rparr>"

definition set_handshake_done :: "bool \<Rightarrow> TCPMimic \<Rightarrow> TCPMimic" where
  "set_handshake_done done m = m\<lparr>handshake_done := done\<rparr>"

definition get_handshake_done :: "TCPMimic \<Rightarrow> bool" where
  "get_handshake_done m = handshake_done m"

definition pkts_recved_empty :: "TCPMimic \<Rightarrow> bool" where
  "pkts_recved_empty m = (pkts_recved_buf m = [])"

definition get_pkts_recved_front :: "TCPMimic \<Rightarrow> (mem \<times> TCPMimic) res" where
  "get_pkts_recved_front m =
     (case pkts_recved_buf m of
        [] \<Rightarrow> Inl EmptyQueue
      | p # ps \<Rightarrow> Inr (p, m\<lparr>pkts_recved_buf := ps\<rparr>))"

definition put_pkts_recved_back :: "mem \<Rightarrow> TCPMimic \<Rightarrow> TCPMimic" where
  "put_pkts_recved_back p m = m\<lparr>pkts_recved_buf := pkts_recved_buf m @ [p]\<rparr>"

definition pkts_to_recv_empty :: "TCPMimic \<Rightarrow> bool" where
  "pkts_to_recv_empty m = (pkts_to_recv m = [])"

definition get_pkts_to_recv_front :: "TCPMimic \<Rightarrow> (mem \<times> TCPMimic) res" where
  "get_pkts_to_recv_front m =
     (case pkts_to_recv m of
        [] \<Rightarrow> Inl EmptyQueue
      | p # ps \<Rightarrow> Inr (p, m\<lparr>pkts_to_recv := ps\<rparr>))"

definition put_pkts_to_recv_back :: "mem \<Rightarrow> TCPMimic \<Rightarrow> TCPMimic" where
  "put_pkts_to_recv_back p m = m\<lparr>pkts_to_recv := pkts_to_recv m @ [p]\<rparr>"

definition pkts_to_recv_size :: "TCPMimic \<Rightarrow> u64" where
  "pkts_to_recv_size m = of_nat (length (pkts_to_recv m))"

definition pkts_to_send_empty :: "TCPMimic \<Rightarrow> bool" where
  "pkts_to_send_empty m = (pkts_to_send m = [])"

definition get_pkts_to_send_front :: "TCPMimic \<Rightarrow> (mem \<times> TCPMimic) res" where
  "get_pkts_to_send_front m =
     (case pkts_to_send m of
        [] \<Rightarrow> Inl EmptyQueue
      | p # ps \<Rightarrow> Inr (p, m\<lparr>pkts_to_send := ps\<rparr>))"

definition put_pkts_to_send_back :: "mem \<Rightarrow> TCPMimic \<Rightarrow> TCPMimic" where
  "put_pkts_to_send_back p m = m\<lparr>pkts_to_send := pkts_to_send m @ [p]\<rparr>"

lemmas mimic_queue_defs =
  pkts_recved_empty_def get_pkts_recved_front_def put_pkts_recved_back_def
  pkts_to_recv_empty_def get_pkts_to_recv_front_def put_pkts_to_recv_back_def
  pkts_to_send_empty_def get_pkts_to_send_front_def put_pkts_to_send_back_def

section \<open>The contract of a queue member\<close>

locale fifo =
  fixes is_empty :: "'s \<Rightarrow> bool"
    and front :: "'s \<Rightarrow> ('a \<times> 's) res"
    and push :: "'a \<Rightarrow> 's \<Rightarrow> 's"
    and elems :: "'s \<Rightarrow> 'a list"
  assumes elems_empty: "is_empty s \<longleftrightarrow> elems s = []"
    and elems_push: "elems (push x s) = elems s @ [x]"
    and front_Cons: "elems s = x # xs \<Longrightarrow> \<exists>s'. front s = Inr (x, s') \<and> elems s' = xs"
    and front_Nil: "elems s = [] \<Longrightarrow> front s = Inl EmptyQueue"
begin

primrec put_all :: "'a list \<Rightarrow> 's \<Rightarrow> 's" where
  "put_all [] s = s"
| "put_all (x # xs) s = put_all xs (push x s)"

primrec take_n :: "nat \<Rightarrow> 's \<Rightarrow> ('a list \<times> 's) res" where
  "take_n 0 s = Inr ([], s)"
| "take_n (Suc n) s = bindE (front s) (\<lambda>(x, s). bindE (take_n n s) (\<lambda>(xs, s). Inr (x # xs, s)))"

lemma elems_put_all: "elems (put_all xs s) = elems s @ xs"
  by (induction xs arbitrary: s) (simp_all add: elems_push)

lemma take_n_elems:
  "n \<le> length (elems s) \<Longrightarrow> \<exists>s'. take_n n s = Inr (take n (elems s), s') \<and> elems s' = drop n (elems s)"
proof (induction n arbitrary: s)
  case 0
  then show ?case by simp
next
  case (Suc n)
  then obtain x xs where e: "elems s = x # xs" by (cases "elems s") auto
  then obtain s1 where s1: "front s = Inr (x, s1)" "elems s1 = xs" using front_Cons by blast
  then obtain s2 where "take_n n s1 = Inr (take n xs, s2)" "elems s2 = drop n xs"
    using Suc.IH [of s1] Suc.prems e by auto
  then show ?case using e s1 by simp
qed

text \<open>Whatever is put behind the elements already there comes out after them, in order.\<close>

lemma put_all_take_all:
  "\<exists>s'. take_n (length (elems s) + length xs) (put_all xs s) = Inr (elems s @ xs, s') \<and> elems s' = []"
  using take_n_elems [of "length (elems s) + length xs" "put_all xs s"] by (simp add: elems_put_all)

lemma front_fails_iff: "front s = Inl e \<longleftrightarrow> e = EmptyQueue \<and> is_empty s"
  using front_Nil [of s] front_Cons [of s] by (cases "elems s") (auto simp: elems_empty)

end

interpretation recved_q: fifo pkts_recved_empty get_pkts_recved_front put_pkts_recved_back pkts_recved_buf
  by unfold_locales (auto simp: mimic_queue_defs)

interpretation to_recv_q: fifo pkts_to_recv_empty get_pkts_to_recv_front put_pkts_to_recv_back pkts_to_recv
  by unfold_locales (auto simp: mimic_queue_defs)

interpretation to_send_q: fifo pkts_to_send_empty get_pkts_to_send_front put_pkts_to_send_back pkts_to_send
  by unfold_locales (auto simp: mimic_queue_defs)

end
