(* ===== verification/TCP_Pcap_Trace_Testing.thy ===== *)
theory TCP_Pcap_Trace_Testing
  imports TCP_Mimic "HOL-Library.AList"
begin

text \<open>
  The flow-aware trace backend \<open>TCPPcapTestingLib\<close> of
  \<^verbatim>\<open>src/sim_dpi/tcp_pcap_trace_testing_lib.cpp\<close>, the one the simulation is built with.

  The flow table is an association list with distinct keys; \<open>key_order\<close> of the call's
  environment is the order in which the hash table is iterated. Casts of a buffer to a header are
  bounds-checked loads: in \<open>get_buf_fr_io\<close> the buffer is an array of 2048 bytes on the stack,
  elsewhere it is the vector of the packet itself.
\<close>

section \<open>State\<close>

record TCPPcapTestingLib =
  pcap_file :: cfile
  tcp_flows :: "(TCPFlowTuple \<times> TCPMimic) list"

section \<open>Helpers\<close>

text \<open>The constructor; the object exists even when the file header could not be read.\<close>

definition TCPPcapTestingLib_new ::
  "fopen \<Rightarrow> string \<Rightarrow> world \<Rightarrow> (world \<times> TCPPcapTestingLib) res" where
  "TCPPcapTestingLib_new fopen pcap_filename w =
     (case fopen pcap_filename ''rb'' of
        None \<Rightarrow> Inl (Exit ''Failed to open pcap file'' 1)
      | Some f \<Rightarrow>
          let (r, f) = consumePCAPHeader f in
          bindE (if r < 0 then finish_simulation (say ''Error reading PCAP file header'' [] w)
                 else Inr w)
            (\<lambda>w. Inr (w, \<lparr>pcap_file = f, tcp_flows = []\<rparr>)))"

text \<open>Unlike that of the other trace backend this one loads nothing: the trace is read as it is replayed.\<close>

definition TCPPcap_fill_pkt_vectors :: "cfile \<Rightarrow> sock_state \<Rightarrow> TCPPcapTestingLib \<Rightarrow> TCPPcapTestingLib" where
  "TCPPcap_fill_pkt_vectors pcap_filename ss b = b"

text \<open>
  \<open>buf_process_helper\<close>. The header fields are used as they lie in memory, that is in network
  byte order; \<open>payload_len\<close> is a 16-bit variable.
\<close>

definition buf_process_helper :: "mem \<Rightarrow> TCPMimic \<Rightarrow> TCPMimic res" where
  "buf_process_helper pkt_buf tcp_context =
     bindE (load 1 pkt_buf 14) (\<lambda>ver_ihl :: u8.
     let ip_hdr_len = ucast (ver_ihl AND 0xf) * 4 :: u32;
         tcp = 14 + unat ip_hdr_len
     in
     bindE (load 1 pkt_buf (tcp + 12)) (\<lambda>hrn :: u8.
     let tcp_hdr_len = ucast (drop_bit 4 hrn) * 4 :: u32 in
     bindE (load 2 pkt_buf 16) (\<lambda>total_length :: u16.
     let payload_len = ucast (ucast total_length - ip_hdr_len - tcp_hdr_len :: u32) :: u16 in
     bindE (load 4 pkt_buf (tcp + 4)) (\<lambda>seq_num :: u32.
     let tcp_context = set_my_seq seq_num tcp_context in
     bindE (load 1 pkt_buf (tcp + 13)) (\<lambda>flags :: u8.
     if flags = TCP_SYN then Inr (set_my_ack (seq_num + 1) tcp_context)
     else bindE (update_my_ack (ucast payload_len) tcp_context)
            (\<lambda>(_, tcp_context). Inr tcp_context))))))"

text \<open>
  \<open>recv_buf_helper\<close>; no code calls it. \<open>check_my_ack\<close> is declared in the class but has no
  definition in the sources, so it is a parameter.
\<close>

definition recv_buf_helper ::
  "(TCPMimic \<Rightarrow> u32 \<Rightarrow> bool) \<Rightarrow> mem \<Rightarrow> TCPMimic \<Rightarrow> world \<Rightarrow> (world \<times> TCPMimic) res" where
  "recv_buf_helper check_my_ack pkt_buf tcp_context w =
     bindE (load 1 pkt_buf 14) (\<lambda>ver_ihl :: u8.
     let ip_hdr_len = ucast (ver_ihl AND 0xf) * 4 :: u32;
         tcp = 14 + unat ip_hdr_len
     in
     bindE (load 1 pkt_buf (tcp + 13)) (\<lambda>flags :: u8.
     if flags = TCP_ACK OR TCP_SYN then
       bindE (load 4 pkt_buf (tcp + 8)) (\<lambda>ack_num :: u32.
       let w = (if \<not> check_my_ack tcp_context ack_num
                then say ''Warning: SYN-ACK ack number not ok'' [] w else w) in
       bindE (load 4 pkt_buf (tcp + 4)) (\<lambda>seq_num :: u32.
       Inr (w, set_handshake_done True
                 (set_their_ack (seq_num + 1) (set_their_seq seq_num tcp_context)))))
     else if flags = TCP_ACK then
       bindE (load 1 pkt_buf (tcp + 12)) (\<lambda>hrn :: u8.
       let tcp_hdr_len = ucast (drop_bit 4 hrn) * 4 :: u32 in
       bindE (load 2 pkt_buf 16) (\<lambda>total_length :: u16.
       let payload_len = ucast (ucast total_length - ip_hdr_len - tcp_hdr_len :: u32) :: u16 in
       bindE (load 4 pkt_buf (tcp + 8)) (\<lambda>ack_num :: u32.
       let w = (if \<not> check_my_ack tcp_context ack_num
                then say ''Warning: ACK number not ok'' [] w else w) in
       bindE (load 4 pkt_buf (tcp + 4)) (\<lambda>seq_num :: u32.
       bindE (update_their_ack (ucast payload_len) (set_their_seq seq_num tcp_context))
         (\<lambda>(_, tcp_context). Inr (w, tcp_context))))))
     else Inr (say ''Warning: bad TCP flags'' [] w, tcp_context)))"

definition TCPPcap_compare_bufs :: "mem \<Rightarrow> mem \<Rightarrow> world \<Rightarrow> world res" where
  "TCPPcap_compare_bufs ref_buf recved_buf w =
     (let w = say ''Comparing bufs'' [] w in
      if length ref_buf \<noteq> length recved_buf then
        finish_simulation
          (say ''ref size: %lu, recved size: %lu'' [int (length ref_buf), int (length recved_buf)]
            (say ''recved pkt different size'' [] w))
      else Inr (compare_loop 0 ref_buf recved_buf w))"

text \<open>The flow key of a packet whose TCP header is taken to be at \<open>tcp_off\<close>.\<close>

definition lookup_tuple_of :: "mem \<Rightarrow> nat \<Rightarrow> bool \<Rightarrow> TCPFlowTuple res" where
  "lookup_tuple_of buffer tcp_off send_packet =
     bindE (load 4 buffer 26) (\<lambda>ip_src :: u32.
     bindE (load 4 buffer 30) (\<lambda>ip_dst :: u32.
     bindE (load 2 buffer tcp_off) (\<lambda>tcp_src :: u16.
     bindE (load 2 buffer (tcp_off + 2)) (\<lambda>tcp_dst :: u16.
     Inr (if send_packet
          then \<lparr>my_ip = ip_src, their_ip = ip_dst, my_port = tcp_src, their_port = tcp_dst\<rparr>
          else \<lparr>my_ip = ip_dst, their_ip = ip_src, my_port = tcp_dst, their_port = tcp_src\<rparr>)))))"

section \<open>get_buf_fr_io\<close>

text \<open>The trace has a packet for a flow that has an entry.\<close>

definition get_existing ::
  "bool \<Rightarrow> TCPFlowTuple \<Rightarrow> TCPMimic \<Rightarrow> mem \<Rightarrow> TCPPcapTestingLib \<Rightarrow> (mem \<times> TCPPcapTestingLib) res" where
  "get_existing send_packet key flow_context pkt_buf b =
     (let upd = (\<lambda>c. b\<lparr>tcp_flows := AList.update key c (tcp_flows b)\<rparr>) in
      if send_packet then
        if get_handshake_done flow_context then
          if pkts_to_send_empty flow_context then
            bindE (buf_process_helper pkt_buf flow_context) (\<lambda>c. Inr (pkt_buf, upd c))
          else
            bindE (get_pkts_to_send_front (put_pkts_to_send_back pkt_buf flow_context))
              (\<lambda>(buf_to_return, c).
               bindE (buf_process_helper buf_to_return c) (\<lambda>c. Inr (buf_to_return, upd c)))
        else Inr ([], upd (put_pkts_to_send_back pkt_buf flow_context))
      else Inr ([], upd (put_pkts_to_recv_back pkt_buf flow_context)))"

text \<open>The trace has a packet for a new flow.\<close>

definition get_new ::
  "bool \<Rightarrow> TCPFlowTuple \<Rightarrow> mem \<Rightarrow> TCPPcapTestingLib \<Rightarrow> (mem \<times> TCPPcapTestingLib) res" where
  "get_new send_packet key pkt_buf b =
     (let new_context = TCPMimic_new False;
          ins = (\<lambda>c. b\<lparr>tcp_flows := tcp_flows b @ [(key, c)]\<rparr>)
      in if send_packet
         then bindE (buf_process_helper pkt_buf new_context) (\<lambda>c. Inr (pkt_buf, ins c))
         else Inr ([], ins (put_pkts_to_recv_back pkt_buf new_context)))"

text \<open>The trace is exhausted: the first flow in iteration order with a packet to send.\<close>

fun drain :: "TCPFlowTuple list \<Rightarrow> TCPPcapTestingLib \<Rightarrow> (mem \<times> TCPPcapTestingLib) res" where
  "drain [] b = Inr ([], b)"
| "drain (key # keys) b =
     (case map_of (tcp_flows b) key of
        None \<Rightarrow> drain keys b
      | Some flow_context \<Rightarrow>
          if \<not> pkts_to_send_empty flow_context then
            bindE (get_pkts_to_send_front flow_context) (\<lambda>(pkt_buf, c).
            bindE (buf_process_helper pkt_buf c) (\<lambda>c.
            Inr (pkt_buf, b\<lparr>tcp_flows := AList.update key c (tcp_flows b)\<rparr>)))
          else drain keys b)"

text \<open>
  The position of the TCP header is computed from the byte at offset 14 of the array \<open>buffer\<close>
  before anything is stored in it: the code reads an uninitialised byte. The C++ standard gives such
  a program no meaning; compiled code takes the byte that the stack happens to hold. The model keeps
  the second reading, since with the first every single call would be a fault: \<open>stack_garbage\<close> of
  the call's environment is the array before the read, any 2048 bytes, different in every call.
  Nothing below assumes anything of these bytes unless the statement says so with \<open>stack_ihl\<close>.
\<close>

definition stack_ihl :: "sysenv \<Rightarrow> nat" where
  "stack_ihl env = unat (stack_garbage env ! 14 AND 0xf)"

definition TCPPcap_get_buf_fr_io :: "TCPPcapTestingLib get_buf_fr_io" where
  "TCPPcap_get_buf_fr_io env ss = (\<lambda>(w, b).
     let buffer = stack_garbage env in
     bindE (load 1 buffer 14) (\<lambda>ver_ihl :: u8.
     let tcp_off = 14 + 4 * unat (ver_ihl AND 0xf) in
     bindE (read_pcap_record (pcap_file b) buffer w) (\<lambda>(bytes_read, buffer, f, w).
     let b = b\<lparr>pcap_file := f\<rparr> in
     if bytes_read > 0 then
       let pkt_buf = take (nat bytes_read) buffer in
       bindE (is_our_mac buffer ss) (\<lambda>send_packet.
       let w = say (if send_packet then ''Sending packet'' else ''Receiving packet'') [] w in
       bindE (lookup_tuple_of buffer tcp_off send_packet) (\<lambda>key.
       bindE (case map_of (tcp_flows b) key of
                Some flow_context \<Rightarrow> get_existing send_packet key flow_context pkt_buf b
              | None \<Rightarrow> get_new send_packet key pkt_buf b)
         (\<lambda>(pkt, b). Inr (pkt, w, b))))
     else
       bindE (drain (key_order env (map fst (tcp_flows b))) b) (\<lambda>(pkt, b). Inr (pkt, w, b)))))"

section \<open>put_buf_on_io\<close>

text \<open>The loop that compares as many pending pairs as there are.\<close>

function compare_pending :: "TCPMimic \<Rightarrow> world \<Rightarrow> (world \<times> TCPMimic) res" where
  "compare_pending flow_context w =
     bindE (alive w) (\<lambda>_.
     if \<not> pkts_to_recv_empty flow_context \<and> \<not> pkts_recved_empty flow_context then
       bindE (get_pkts_to_recv_front flow_context) (\<lambda>(ref_pkt, c).
       bindE (get_pkts_recved_front c) (\<lambda>(test_pkt, c).
       bindE (TCPPcap_compare_bufs ref_pkt test_pkt w) (\<lambda>w.
       compare_pending c w)))
     else Inr (w, flow_context))"
  by pat_completeness auto
termination
  by (relation "measure (\<lambda>(c, w). length (pkts_to_recv c))")
    (auto simp: mimic_queue_defs split: list.splits)

declare compare_pending.simps [simp del]

text \<open>A packet of the hardware for a flow that has an entry.\<close>

definition put_on_flow :: "mem \<Rightarrow> TCPMimic \<Rightarrow> world \<Rightarrow> (world \<times> TCPMimic) res" where
  "put_on_flow pkt_buf flow_context w =
     (let w = say ''Receive trace found an entry'' [] w;
          w = say ''%lu packets to receive'' [uint (pkts_to_recv_size flow_context)] w
      in
      bindE (compare_pending flow_context w) (\<lambda>(w, c).
      if pkts_to_recv_empty c then
        Inr (say ''No packets to compare to'' [] w, put_pkts_recved_back pkt_buf c)
      else
        bindE (get_pkts_to_recv_front c) (\<lambda>(ref_pkt, c).
        bindE (TCPPcap_compare_bufs ref_pkt pkt_buf w) (\<lambda>w. Inr (w, c)))))"

definition TCPPcap_put_buf_on_io :: "TCPPcapTestingLib put_buf_on_io" where
  "TCPPcap_put_buf_on_io env ss pkt_buf = (\<lambda>(w, b).
     bindE (load 1 pkt_buf 14) (\<lambda>ver_ihl :: u8.
     let tcp_off = 14 + 4 * unat (ver_ihl AND 0xf) in
     bindE (is_our_mac pkt_buf ss) (\<lambda>send_packet.
     bindE (lookup_tuple_of pkt_buf tcp_off send_packet) (\<lambda>key.
     case map_of (tcp_flows b) key of
       None \<Rightarrow> Inr (int_of_size (length pkt_buf), w, b)
     | Some flow_context \<Rightarrow>
         bindE (put_on_flow pkt_buf flow_context w) (\<lambda>(w, c).
         Inr (int_of_size (length pkt_buf), w, b\<lparr>tcp_flows := AList.update key c (tcp_flows b)\<rparr>))))))"

section \<open>Frames of the helpers\<close>

lemma buf_process_helper_frame:
  assumes "buf_process_helper p c = Inr c'"
  shows "handshake_done c' = handshake_done c" "pkts_recved_buf c' = pkts_recved_buf c"
    "pkts_to_recv c' = pkts_to_recv c" "pkts_to_send c' = pkts_to_send c"
  using assms
  by (auto simp: buf_process_helper_def Let_def res_simps set_my_seq_def set_my_ack_def
      update_my_ack_def split: if_splits option.splits)

lemma TCPPcap_compare_bufs_frame:
  "TCPPcap_compare_bufs r t w = Inr w' \<Longrightarrow>
   drives w' = drives w \<and> (backend_life w' = backend_life w \<or> backend_life w' = Dead)"
  by (auto simp: TCPPcap_compare_bufs_def Let_def split: if_splits
      dest: finish_simulation_drives finish_simulation_life)

lemma compare_pending_frame:
  "compare_pending c w = Inr (w', c') \<Longrightarrow>
   drives w' = drives w \<and> (backend_life w' = backend_life w \<or> backend_life w' = Dead) \<and>
   handshake_done c' = handshake_done c \<and> pkts_to_send c' = pkts_to_send c \<and>
   my_expected_ack c' = my_expected_ack c"
proof (induction c w rule: compare_pending.induct)
  case (1 c w)
  show ?case
  proof (cases "\<not> pkts_to_recv_empty c \<and> \<not> pkts_recved_empty c")
    case True
    then obtain r rs t ts where q: "pkts_to_recv c = r # rs" "pkts_recved_buf c = t # ts"
      by (auto simp: mimic_queue_defs neq_Nil_conv)
    let ?c = "c\<lparr>pkts_to_recv := rs, pkts_recved_buf := ts\<rparr>"
    from "1.prems" True q obtain w1 where a: "alive w = Inr ()"
      and w1: "TCPPcap_compare_bufs r t w = Inr w1" "compare_pending ?c w1 = Inr (w', c')"
      by (subst (asm) compare_pending.simps) (auto simp: res_simps mimic_queue_defs)
    have "drives w' = drives w1 \<and> (backend_life w' = backend_life w1 \<or> backend_life w' = Dead) \<and>
       handshake_done c' = handshake_done ?c \<and> pkts_to_send c' = pkts_to_send ?c \<and>
       my_expected_ack c' = my_expected_ack ?c"
      using "1.IH" [OF a True, of "(r, c\<lparr>pkts_to_recv := rs\<rparr>)" r "c\<lparr>pkts_to_recv := rs\<rparr>" "(t, ?c)" t ?c w1]
        q w1 by (simp add: mimic_queue_defs)
    with TCPPcap_compare_bufs_frame [OF w1(1)] show ?thesis by auto
  next
    case False
    with "1.prems" show ?thesis
      by (subst (asm) compare_pending.simps) (auto simp: res_simps)
  qed
qed

lemma put_on_flow_frame:
  assumes "put_on_flow p c w = Inr (w', c')"
  shows "drives w' = drives w" "backend_life w' = backend_life w \<or> backend_life w' = Dead"
    "handshake_done c' = handshake_done c" "pkts_to_send c' = pkts_to_send c"
    "my_expected_ack c' = my_expected_ack c"
  using assms
  by (auto simp: put_on_flow_def Let_def res_simps mimic_queue_defs split: if_splits list.splits
      dest!: compare_pending_frame TCPPcap_compare_bufs_frame)

section \<open>The invariant of the flow table\<close>

text \<open>The keys are distinct, and no context has its handshake marked as done.\<close>

definition tcp_inv :: "TCPPcapTestingLib \<Rightarrow> bool" where
  "tcp_inv b \<longleftrightarrow> distinct (map fst (tcp_flows b)) \<and>
     (\<forall>c \<in> ran (map_of (tcp_flows b)). \<not> handshake_done c)"

lemma tcp_inv_flow: "tcp_inv b \<Longrightarrow> map_of (tcp_flows b) k = Some c \<Longrightarrow> \<not> handshake_done c"
  unfolding tcp_inv_def by (blast intro: ranI)

lemma map_of_snoc: "map_of xs k = None \<Longrightarrow> map_of (xs @ [(k, c)]) = (map_of xs)(k \<mapsto> c)"
  by (rule ext) (auto simp: map_add_def split: option.splits)

lemma ran_upd_subset: "ran (m(k \<mapsto> c)) \<subseteq> insert c (ran m)"
  by (auto simp: ran_def)

lemma tcp_inv_update:
  "tcp_inv b \<Longrightarrow> \<not> handshake_done c \<Longrightarrow> tcp_inv (b\<lparr>tcp_flows := AList.update k c (tcp_flows b)\<rparr>)"
  using ran_upd_subset [of "map_of (tcp_flows b)" k c]
  by (auto simp: tcp_inv_def distinct_update update_conv')

lemma tcp_inv_insert:
  assumes "tcp_inv b" "\<not> handshake_done c" "map_of (tcp_flows b) k = None"
  shows "tcp_inv (b\<lparr>tcp_flows := tcp_flows b @ [(k, c)]\<rparr>)"
proof -
  have "\<forall>c' \<in> ran (map_of (tcp_flows b @ [(k, c)])). \<not> handshake_done c'"
    using assms ran_upd_subset [of "map_of (tcp_flows b)" k c]
    unfolding map_of_snoc [OF assms(3)] tcp_inv_def by blast
  with assms show ?thesis by (simp add: tcp_inv_def map_of_eq_None_iff)
qed

text \<open>
  What \<open>drain\<close> does: either no flow of the list has a packet to send, or the front packet of the
  first that has one is taken from it.
\<close>

lemma drain_cases:
  assumes "drain keys b = Inr (pkt, b')"
  obtains (idle) "pkt = []" "b' = b"
      "\<forall>k \<in> set keys. \<forall>c. map_of (tcp_flows b) k = Some c \<longrightarrow> pkts_to_send c = []"
  | (release) k c ps c' where "k \<in> set keys" "map_of (tcp_flows b) k = Some c"
      "pkts_to_send c = pkt # ps" "buf_process_helper pkt (c\<lparr>pkts_to_send := ps\<rparr>) = Inr c'"
      "b' = b\<lparr>tcp_flows := AList.update k c' (tcp_flows b)\<rparr>"
  using assms
proof (induction keys b rule: drain.induct)
  case (1 b)
  then show ?case by simp
next
  case (2 key keys b)
  show ?case
  proof (cases "map_of (tcp_flows b) key")
    case None
    show ?thesis
      by (rule "2.IH"(1) [OF None]) (use "2.prems" None in auto)
  next
    case (Some c)
    show ?thesis
    proof (cases "pkts_to_send c")
      case Nil
      show ?thesis
        by (rule "2.IH"(2) [OF Some]) (use "2.prems" Some Nil in \<open>auto simp: mimic_queue_defs\<close>)
    next
      case (Cons p ps)
      with Some "2.prems"(3) obtain c' where
        "buf_process_helper p (c\<lparr>pkts_to_send := ps\<rparr>) = Inr c'" "pkt = p"
        "b' = b\<lparr>tcp_flows := AList.update key c' (tcp_flows b)\<rparr>"
        by (auto simp: mimic_queue_defs res_simps)
      with Some Cons show ?thesis by (intro "2.prems"(2)) auto
    qed
  qed
qed

text \<open>The two ways a call of \<open>get_buf_fr_io\<close> returns: with a record of the trace, or without.\<close>

lemma TCPPcap_getE:
  assumes "TCPPcap_get_buf_fr_io env ss (w, b) = Inr (pkt, w', b')"
  obtains (packet) n buffer f w1 sp key where
      "read_pcap_record (pcap_file b) (stack_garbage env) w = Inr (n, buffer, f, w1)" "n > 0"
      "is_our_mac buffer ss = Inr sp"
      "lookup_tuple_of buffer (14 + 4 * unat (stack_garbage env ! 14 AND 0xf)) sp = Inr key"
      "(case map_of (tcp_flows b) key of
          Some c \<Rightarrow> get_existing sp key c (take (nat n) buffer) (b\<lparr>pcap_file := f\<rparr>)
        | None \<Rightarrow> get_new sp key (take (nat n) buffer) (b\<lparr>pcap_file := f\<rparr>)) = Inr (pkt, b')"
      "w' = say (if sp then ''Sending packet'' else ''Receiving packet'') [] w1"
  | (exhausted) n buffer f where
      "read_pcap_record (pcap_file b) (stack_garbage env) w = Inr (n, buffer, f, w')" "n \<le> 0"
      "drain (key_order env (map fst (tcp_flows b))) (b\<lparr>pcap_file := f\<rparr>) = Inr (pkt, b')"
proof -
  from assms have "14 < length (stack_garbage env)"
    by (auto simp: TCPPcap_get_buf_fr_io_def Let_def res_simps load_def split: if_splits)
  then have l: "load (Suc 0) (stack_garbage env) 14 = Inr (stack_garbage env ! 14)"
    by (rule load_byte)
  from assms l obtain n buffer f w1
    where r: "read_pcap_record (pcap_file b) (stack_garbage env) w = Inr (n, buffer, f, w1)"
    by (auto simp: TCPPcap_get_buf_fr_io_def Let_def res_simps)
  show thesis
  proof (cases "n > 0")
    case True
    with assms r l show thesis
      by (auto simp: TCPPcap_get_buf_fr_io_def Let_def res_simps intro!: packet)
  next
    case False
    with assms r l show thesis
      by (auto simp: TCPPcap_get_buf_fr_io_def Let_def res_simps intro!: exhausted)
  qed
qed

lemma get_new_inv:
  assumes "tcp_inv b" "map_of (tcp_flows b) k = None" "get_new sp k p b = Inr (pkt, b')"
  shows "tcp_inv b'"
  using assms
  by (auto simp: get_new_def Let_def res_simps buf_process_helper_frame TCPMimic_new_def
      put_pkts_to_recv_back_def intro!: tcp_inv_insert split: if_splits)

lemma get_existing_inv:
  assumes "tcp_inv b" "\<not> handshake_done c" "get_existing sp k c p b = Inr (pkt, b')"
  shows "tcp_inv b'"
  using assms
  by (auto simp: get_existing_def Let_def get_handshake_done_def put_pkts_to_recv_back_def
      put_pkts_to_send_back_def intro!: tcp_inv_update split: if_splits)

lemma drain_inv:
  assumes "tcp_inv b" "drain keys b = Inr (pkt, b')"
  shows "tcp_inv b'"
  using assms(2)
proof (cases rule: drain_cases)
  case idle
  with assms(1) show ?thesis by simp
next
  case (release k c ps c')
  then have "\<not> handshake_done c'"
    using buf_process_helper_frame(1) [OF release(4)] tcp_inv_flow [OF assms(1)] by auto
  with release(5) assms(1) show ?thesis by (simp add: tcp_inv_update)
qed

lemma TCPPcap_get_inv:
  assumes inv: "tcp_inv b" and g: "TCPPcap_get_buf_fr_io env ss (w, b) = Inr (pkt, w', b')"
  shows "tcp_inv b'"
  using g
proof (cases rule: TCPPcap_getE)
  case (packet n buffer f w1 sp key)
  have inv1: "tcp_inv (b\<lparr>pcap_file := f\<rparr>)" using inv by (simp add: tcp_inv_def)
  show ?thesis
  proof (cases "map_of (tcp_flows b) key")
    case None
    with packet inv1 show ?thesis
      using get_new_inv [of "b\<lparr>pcap_file := f\<rparr>" key sp "take (nat n) buffer" pkt b'] by simp
  next
    case (Some c)
    with packet inv1 tcp_inv_flow [OF inv Some] show ?thesis
      using get_existing_inv [of "b\<lparr>pcap_file := f\<rparr>" c sp key "take (nat n) buffer" pkt b'] by simp
  qed
next
  case (exhausted n buffer f)
  with inv show ?thesis using drain_inv [of "b\<lparr>pcap_file := f\<rparr>"] by (simp add: tcp_inv_def)
qed

lemma TCPPcap_get_frame:
  assumes "TCPPcap_get_buf_fr_io env ss (w, b) = Inr (pkt, w', b')"
  shows "drives w' = drives w \<and> backend_life w' = backend_life w"
  using assms
  by (cases rule: TCPPcap_getE) (auto dest!: read_pcap_record_frame)

lemma TCPPcap_putE:
  assumes "TCPPcap_put_buf_on_io env ss p (w, b) = Inr (n, w', b')"
  obtains (unknown) key where "n = int_of_size (length p)" "w' = w" "b' = b" "map_of (tcp_flows b) key = None"
  | (flow) key c c' where "n = int_of_size (length p)" "map_of (tcp_flows b) key = Some c"
      "put_on_flow p c w = Inr (w', c')" "b' = b\<lparr>tcp_flows := AList.update key c' (tcp_flows b)\<rparr>"
proof -
  from assms obtain key where k:
    "(case map_of (tcp_flows b) key of
       None \<Rightarrow> Inr (int_of_size (length p), w, b)
     | Some c \<Rightarrow> bindE (put_on_flow p c w) (\<lambda>(w, c).
         Inr (int_of_size (length p), w, b\<lparr>tcp_flows := AList.update key c (tcp_flows b)\<rparr>))) = Inr (n, w', b')"
    by (auto simp: TCPPcap_put_buf_on_io_def Let_def res_simps)
  show thesis
    by (cases "map_of (tcp_flows b) key")
      (use k in \<open>auto simp: res_simps intro: unknown flow\<close>)
qed

section \<open>The contract\<close>

interpretation tcp_trace: dpi_backend TCPPcap_get_buf_fr_io TCPPcap_put_buf_on_io tcp_inv
proof unfold_locales
  fix env ss w b n w' b' and p :: mem
  assume p: "TCPPcap_put_buf_on_io env ss p (w, b) = Inr (n, w', b')"
  show "drives w' = drives w" "backend_life w' = backend_life w \<or> backend_life w' = Dead"
    by (use p in \<open>cases rule: TCPPcap_putE; auto dest: put_on_flow_frame(1,2)\<close>)+
  show "n \<le> int (length p) \<and> (length p < 2 ^ 31 \<longrightarrow> 0 \<le> n)"
    by (use p int_of_size_le [of "length p"] in \<open>cases rule: TCPPcap_putE; simp\<close>)
  assume "tcp_inv b"
  with p show "tcp_inv b'"
    by (cases rule: TCPPcap_putE) (auto simp: put_on_flow_frame tcp_inv_flow intro!: tcp_inv_update)
qed (auto intro: TCPPcap_get_inv simp: TCPPcap_get_frame)

end
