(* ===== verification/TCP_Replay.thy ===== *)
theory TCP_Replay
  imports TCP_Pcap_Trace_Testing "HOL-Library.Sublist"
begin

text \<open>
  The order in which the flow-aware backend of
  \<^verbatim>\<open>src/sim_dpi/tcp_pcap_trace_testing_lib.cpp\<close> hands the packets of a trace to the simulation.

  \<open>replay\<close> is an abstract replayer: what is left of the trace, the flows seen so far, and per
  flow the packets held back. Its step relation has one rule per kind of call of
  \<open>get_buf_fr_io\<close>. The backend refines it (\<open>get_refines\<close>, \<open>put_refines\<close>), and the properties
  of whole runs are proved of the abstract replayer by induction and carried over.
\<close>

section \<open>Packets of a trace\<close>

definition ihl_of :: "mem \<Rightarrow> nat" where
  "ihl_of p = unat (p ! 14 AND 0xf)"

definition tcp_at :: "mem \<Rightarrow> nat" where
  "tcp_at p = 14 + 4 * ihl_of p"

text \<open>The headers that the code reads lie inside the packet, and the packet fits the buffer.\<close>

definition pkt_ok :: "mem \<Rightarrow> bool" where
  "pkt_ok p \<longleftrightarrow> 34 \<le> length p \<and> tcp_at p + 20 \<le> length p \<and> length p \<le> 2048"

definition is_syn :: "mem \<Rightarrow> bool" where
  "is_syn p \<longleftrightarrow> p ! (tcp_at p + 13) = TCP_SYN"

definition pkt_key :: "sock_state \<Rightarrow> mem \<Rightarrow> TCPFlowTuple" where
  "pkt_key ss p =
     (let s_ip = word_of_bytes (take 4 (drop 26 p)); d_ip = word_of_bytes (take 4 (drop 30 p));
          s_port = word_of_bytes (take 2 (drop (tcp_at p) p));
          d_port = word_of_bytes (take 2 (drop (tcp_at p + 2) p))
      in if for_us ss p
         then \<lparr>my_ip = s_ip, their_ip = d_ip, my_port = s_port, their_port = d_port\<rparr>
         else \<lparr>my_ip = d_ip, their_ip = s_ip, my_port = d_port, their_port = s_port\<rparr>)"

text \<open>The packets of a list that are to be sent on flow \<open>k\<close>.\<close>

definition sent_on :: "sock_state \<Rightarrow> TCPFlowTuple \<Rightarrow> mem list \<Rightarrow> mem list" where
  "sent_on ss k ps = filter (\<lambda>p. for_us ss p \<and> pkt_key ss p = k) ps"

lemma sent_on_Cons:
  "sent_on ss k (p # ps) =
     (if for_us ss p \<and> pkt_key ss p = k then p # sent_on ss k ps else sent_on ss k ps)"
  by (simp add: sent_on_def)

lemma take_drop_inside: "i + n \<le> length p \<Longrightarrow> take n (drop i (p @ q)) = take n (drop i p)"
  by simp

lemma lookup_tuple_of_pkt:
  assumes "pkt_ok p"
  shows "lookup_tuple_of (p @ rest) (tcp_at p) (for_us ss p) = Inr (pkt_key ss p)"
proof -
  have "load 4 (p @ rest) 26 = Inr (word_of_bytes (take 4 (drop 26 p)) :: u32)"
    "load 4 (p @ rest) 30 = Inr (word_of_bytes (take 4 (drop 30 p)) :: u32)"
    "load 2 (p @ rest) (tcp_at p) = Inr (word_of_bytes (take 2 (drop (tcp_at p) p)) :: u16)"
    "load 2 (p @ rest) (tcp_at p + 2) = Inr (word_of_bytes (take 2 (drop (tcp_at p + 2) p)) :: u16)"
    using assms by (simp_all add: pkt_ok_def load_def)
  then show ?thesis by (simp add: lookup_tuple_of_def pkt_key_def Let_def)
qed

lemma is_our_mac_pkt:
  assumes "pkt_ok p" "sock_state_wf ss"
  shows "is_our_mac (p @ rest) ss = Inr (for_us ss p)"
  using assms is_our_mac_iff [of "p @ rest" ss] by (simp add: pkt_ok_def sock_state_wf_def for_us_def)

lemma unat_low_nibble_less: "unat (v AND 0xf :: u8) < 16"
proof -
  have "v AND 0xf = take_bit 4 v" by (simp add: take_bit_eq_mask mask_eq_exp_minus_1)
  then have "unat (v AND 0xf) = take_bit 4 (unat v)" by (simp add: unsigned_take_bit_eq)
  then show ?thesis using take_bit_nat_less_exp [of 4 "unat v"] by simp
qed

lemma nibble_shift: "unat (ucast (v AND 0xf :: u8) * 4 :: u32) = 4 * unat (v AND 0xf)"
proof -
  have "unat (ucast (v AND 0xf) :: u32) = unat (v AND 0xf)"
    by (simp add: unsigned_ucast_eq take_bit_nat_eq_self_iff less_trans [OF unat_low_nibble_less])
  then show ?thesis using unat_low_nibble_less [of v] by (simp add: unat_word_ariths(2))
qed

lemma buf_process_helper_pkt:
  assumes p: "pkt_ok p" and i: "is_syn p \<or> my_expected_ack c \<noteq> None"
  shows "\<exists>c'. buf_process_helper p c = Inr c' \<and> my_expected_ack c' \<noteq> None"
proof -
  let ?t = "14 + unat (ucast (p ! 14 AND 0xf) * 4 :: u32)"
  have t: "?t = tcp_at p" by (simp only: nibble_shift tcp_at_def ihl_of_def)
  have l: "load (Suc 0) p 14 = Inr (p ! 14)" "load (Suc 0) p (tcp_at p + 12) = Inr (p ! (tcp_at p + 12))"
    "load (Suc 0) p (tcp_at p + 13) = Inr (p ! (tcp_at p + 13))"
    "load 2 p 16 = Inr (word_of_bytes (take 2 (drop 16 p)) :: u16)"
    "load 4 p (tcp_at p + 4) = Inr (word_of_bytes (take 4 (drop (tcp_at p + 4) p)) :: u32)"
    using p by (auto intro!: load_byte load_inside simp: pkt_ok_def)
  show ?thesis
    using i l [folded t] unfolding buf_process_helper_def Let_def is_syn_def t [symmetric]
    by (auto simp: set_my_seq_def set_my_ack_def update_my_ack_def)
qed

section \<open>The abstract replayer\<close>

record replay =
  trace :: "mem list"
  known :: "TCPFlowTuple set"
  held :: "TCPFlowTuple \<Rightarrow> mem list"

text \<open>
  A step of the replayer and the packet it hands out (none: the empty one). The first packet of
  an unknown flow goes out at once, later ones are held; a packet to be received from the
  hardware makes its flow known; when the trace is exhausted held packets are released.
\<close>

inductive replay_step :: "sock_state \<Rightarrow> replay \<Rightarrow> mem \<Rightarrow> replay \<Rightarrow> bool" for ss where
  open_flow: "trace a = p # ps \<Longrightarrow> for_us ss p \<Longrightarrow> pkt_key ss p \<notin> known a \<Longrightarrow>
    replay_step ss a p (a\<lparr>trace := ps, known := insert (pkt_key ss p) (known a)\<rparr>)"
| hold: "trace a = p # ps \<Longrightarrow> for_us ss p \<Longrightarrow> pkt_key ss p = k \<Longrightarrow> k \<in> known a \<Longrightarrow>
    replay_step ss a [] (a\<lparr>trace := ps, held := (held a)(k := held a k @ [p])\<rparr>)"
| note_ref: "trace a = p # ps \<Longrightarrow> \<not> for_us ss p \<Longrightarrow>
    replay_step ss a [] (a\<lparr>trace := ps, known := insert (pkt_key ss p) (known a)\<rparr>)"
| release: "trace a = [] \<Longrightarrow> held a k = p # ps \<Longrightarrow>
    replay_step ss a p (a\<lparr>held := (held a)(k := ps)\<rparr>)"
| idle: "trace a = [] \<Longrightarrow> (\<And>k. held a k = []) \<Longrightarrow> replay_step ss a [] a"

inductive_cases replay_stepE: "replay_step ss a p a'"

definition replay_start :: "mem list \<Rightarrow> replay" where
  "replay_start ps = \<lparr>trace = ps, known = {}, held = (\<lambda>_. [])\<rparr>"

text \<open>What is still to be sent on a flow.\<close>

definition pending :: "sock_state \<Rightarrow> replay \<Rightarrow> TCPFlowTuple \<Rightarrow> mem list" where
  "pending ss a k = held a k @ sent_on ss k (trace a)"

text \<open>Only known flows hold packets, and every held packet belongs to the flow that holds it.\<close>

definition replay_wf :: "sock_state \<Rightarrow> replay \<Rightarrow> bool" where
  "replay_wf ss a \<longleftrightarrow> finite (known a) \<and> (\<forall>k. k \<notin> known a \<longrightarrow> held a k = []) \<and>
     (\<forall>k. \<forall>p \<in> set (held a k). for_us ss p \<and> pkt_key ss p = k \<and> p \<noteq> []) \<and>
     (\<forall>p \<in> set (trace a). p \<noteq> [])"

definition delivered :: "sock_state \<Rightarrow> TCPFlowTuple \<Rightarrow> mem \<Rightarrow> mem list" where
  "delivered ss k p = (if p \<noteq> [] then sent_on ss k [p] else [])"

lemma replay_wf_held:
  "replay_wf ss a \<Longrightarrow> p \<in> set (held a k) \<Longrightarrow> for_us ss p \<and> pkt_key ss p = k \<and> p \<noteq> []"
  unfolding replay_wf_def by blast

lemma replay_wf_step: "replay_step ss a p a' \<Longrightarrow> replay_wf ss a \<Longrightarrow> replay_wf ss a'"
proof (induction rule: replay_step.induct)
  case (release a k p ps)
  have "\<forall>q \<in> set ps. for_us ss q \<and> pkt_key ss q = k \<and> q \<noteq> []"
    using replay_wf_held [OF release(3), of _ k] release(2) by simp
  moreover have "k \<in> known a" using release by (auto simp: replay_wf_def)
  ultimately show ?case using release(1,3) by (simp add: replay_wf_def)
qed (auto simp: replay_wf_def)

text \<open>No step loses, duplicates or reorders the packets of a flow.\<close>

lemma replay_step_pending:
  "replay_step ss a p a' \<Longrightarrow> replay_wf ss a \<Longrightarrow> pending ss a k = delivered ss k p @ pending ss a' k"
proof (induction rule: replay_step.induct)
  case (release a k' p ps)
  then have "for_us ss p \<and> pkt_key ss p = k' \<and> p \<noteq> []"
    using replay_wf_held [of ss a p k'] by simp
  with release show ?case by (auto simp: pending_def delivered_def sent_on_def)
qed (auto simp: pending_def delivered_def sent_on_def replay_wf_def)

text \<open>The number of steps that are still of use.\<close>

definition work :: "replay \<Rightarrow> nat" where
  "work a = 2 * length (trace a) + (\<Sum>k \<in> known a. length (held a k))"

lemma work_step:
  "replay_step ss a p a' \<Longrightarrow> replay_wf ss a \<Longrightarrow> work a' < work a \<or> (work a = 0 \<and> a' = a)"
proof (induction rule: replay_step.induct)
  case (open_flow a p ps)
  then show ?case by (simp add: work_def replay_wf_def)
next
  case (hold a p ps k)
  then have "finite (known a)" by (simp add: replay_wf_def)
  with hold show ?case by (simp add: work_def sum.remove [of _ k])
next
  case (note_ref a p ps)
  then have "finite (known a)" "pkt_key ss p \<notin> known a \<Longrightarrow> held a (pkt_key ss p) = []"
    by (simp_all add: replay_wf_def)
  with note_ref show ?case by (cases "pkt_key ss p \<in> known a") (simp_all add: work_def insert_absorb)
next
  case (release a k p ps)
  then have "finite (known a)" "k \<in> known a" by (auto simp: replay_wf_def)
  with release show ?case by (simp add: work_def sum.remove [of _ k])
next
  case (idle a)
  then show ?case by (simp add: work_def)
qed

lemma work_0: "replay_wf ss a \<Longrightarrow> work a = 0 \<Longrightarrow> pending ss a k = []"
  by (cases "k \<in> known a") (auto simp: work_def pending_def sent_on_def replay_wf_def)

section \<open>The refinement\<close>

definition queue_of :: "TCPPcapTestingLib \<Rightarrow> TCPFlowTuple \<Rightarrow> mem list" where
  "queue_of b k = (case map_of (tcp_flows b) k of None \<Rightarrow> [] | Some c \<Rightarrow> pkts_to_send c)"

definition ack_of :: "TCPPcapTestingLib \<Rightarrow> TCPFlowTuple \<Rightarrow> u32 option" where
  "ack_of b k = (case map_of (tcp_flows b) k of None \<Rightarrow> None | Some c \<Rightarrow> my_expected_ack c)"

lemma queue_of_file [simp]: "queue_of (b\<lparr>pcap_file := f\<rparr>) = queue_of b"
  by (simp add: queue_of_def fun_eq_iff)

lemma ack_of_file [simp]: "ack_of (b\<lparr>pcap_file := f\<rparr>) = ack_of b"
  by (simp add: ack_of_def fun_eq_iff)

text \<open>
  The backend \<open>b\<close> stands for the abstract state \<open>a\<close>, on a trace whose packets have IP headers of
  \<open>h\<close> words. A flow whose acknowledgement number is still indeterminate has a SYN as the next
  packet to send.
\<close>

definition replays :: "sock_state \<Rightarrow> nat \<Rightarrow> TCPPcapTestingLib \<Rightarrow> replay \<Rightarrow> bool" where
  "replays ss h b a \<longleftrightarrow> file_holds (pcap_file b) (trace a) \<and> tcp_inv b \<and> replay_wf ss a \<and>
     known a = dom (map_of (tcp_flows b)) \<and> held a = queue_of b \<and>
     (\<forall>p \<in> set (trace a). pkt_ok p \<and> ihl_of p = h) \<and> (\<forall>k. \<forall>p \<in> set (held a k). pkt_ok p) \<and>
     (\<forall>k. ack_of b k = None \<longrightarrow> pending ss a k = [] \<or> is_syn (hd (pending ss a k)))"

text \<open>
  What every host gives a call: an array of 2048 bytes, and an iteration of the hash table that
  visits every key.
\<close>

definition host_ok :: "sysenv \<Rightarrow> bool" where
  "host_ok env \<longleftrightarrow> sysenv_wf env \<and> (\<forall>ks. set (key_order env ks) = set ks)"

text \<open>
  The refinement holds for calls that find the right header length in the uninitialised array. No
  host promises that: it is a hypothesis of its own in the statements below.
\<close>

definition env_ok :: "nat \<Rightarrow> sysenv \<Rightarrow> bool" where
  "env_ok h env \<longleftrightarrow> host_ok env \<and> stack_ihl env = h"

lemma env_okD:
  assumes "env_ok h env"
  shows "sysenv_wf env" "stack_ihl env = h" "set (key_order env ks) = set ks"
  using assms by (simp_all add: env_ok_def host_ok_def)

lemma replays_syn:
  "replays ss h b a \<Longrightarrow> ack_of b k = None \<Longrightarrow> pending ss a k = [] \<or> is_syn (hd (pending ss a k))"
  unfolding replays_def by blast

lemma replays_upd:
  assumes r: "replays ss h b a" and st: "replay_step ss a pkt a'"
    and f: "file_holds (pcap_file b') (trace a')" and inv: "tcp_inv b'"
    and m: "map_of (tcp_flows b') = (map_of (tcp_flows b))(k \<mapsto> c)"
    and a': "known a' = insert k (known a)" "held a' = (held a)(k := pkts_to_send c)"
      "set (trace a') \<subseteq> set (trace a)" "set (pkts_to_send c) \<subseteq> set (held a k) \<union> set (trace a)"
    and ack: "my_expected_ack c = None \<Longrightarrow> ack_of b k = None \<and> pkt = []"
    and key: "pkt \<noteq> [] \<Longrightarrow> pkt_key ss pkt = k"
  shows "replays ss h b' a'"
proof -
  have wf: "replay_wf ss a" using r by (simp add: replays_def)
  have "held a' = queue_of b'"
    using r a'(2) m by (auto simp: replays_def queue_of_def fun_eq_iff)
  moreover have "known a' = dom (map_of (tcp_flows b'))" using r a'(1) m by (auto simp: replays_def)
  moreover have "\<forall>p \<in> set (trace a'). pkt_ok p \<and> ihl_of p = h" using r a'(3) by (auto simp: replays_def)
  moreover have "\<forall>k'. \<forall>p \<in> set (held a' k'). pkt_ok p"
    using r a'(2,4) by (auto simp: replays_def)
  moreover have "pending ss a' k' = [] \<or> is_syn (hd (pending ss a' k'))" if n: "ack_of b' k' = None" for k'
  proof -
    have "ack_of b k' = None \<and> delivered ss k' pkt = []"
      using n ack key m by (cases "k' = k") (auto simp: ack_of_def delivered_def sent_on_def)
    then show ?thesis
      using replays_syn [OF r, of k'] replay_step_pending [OF st wf, of k'] by simp
  qed
  ultimately show ?thesis
    using f inv replay_wf_step [OF st wf] by (simp add: replays_def)
qed

lemma drain_ok:
  assumes "\<And>k c p ps. map_of (tcp_flows b) k = Some c \<Longrightarrow> pkts_to_send c = p # ps \<Longrightarrow>
    \<exists>c'. buf_process_helper p (c\<lparr>pkts_to_send := ps\<rparr>) = Inr c'"
  shows "\<exists>pkt b'. drain keys b = Inr (pkt, b')"
proof (induction keys)
  case (Cons k keys)
  show ?case
  proof (cases "map_of (tcp_flows b) k")
    case (Some c)
    show ?thesis
      using Cons Some assms [OF Some] by (cases "pkts_to_send c") (auto simp: mimic_queue_defs)
  qed (simp add: Cons)
qed simp

text \<open>A call that finds a record in the trace.\<close>

lemma get_record:
  assumes "replays ss h b a" "env_ok h env" "sock_state_wf ss" "trace a = p # ps"
  shows "\<exists>f w'. file_holds f ps \<and>
    TCPPcap_get_buf_fr_io env ss (w, b) =
      bindE (case map_of (tcp_flows b) (pkt_key ss p) of
               Some c \<Rightarrow> get_existing (for_us ss p) (pkt_key ss p) c p (b\<lparr>pcap_file := f\<rparr>)
             | None \<Rightarrow> get_new (for_us ss p) (pkt_key ss p) p (b\<lparr>pcap_file := f\<rparr>))
        (\<lambda>(pkt, b). Inr (pkt, w', b))"
proof -
  let ?g = "stack_garbage env"
  from assms(1,4) have p: "pkt_ok p" "ihl_of p = h" and f: "file_holds (pcap_file b) (p # ps)"
    by (auto simp: replays_def)
  from assms(2) have g: "length ?g = 2048" "14 + 4 * unat (?g ! 14 AND 0xf) = tcp_at p"
    using p(2) env_okD [OF assms(2)] by (simp_all add: sysenv_wf_def tcp_at_def stack_ihl_def)
  have l: "p \<noteq> []" "length p \<le> length ?g" "length p < 2 ^ 31" using p(1) g(1) by (auto simp: pkt_ok_def)
  obtain f' w' where r: "read_pcap_record (pcap_file b) ?g w =
      Inr (int (length p), p @ drop (length p) ?g, f', w')" "file_holds f' ps"
    using read_held_record [OF f l] by blast
  have g14: "load (Suc 0) ?g 14 = Inr (?g ! 14)" using g(1) by (simp add: load_byte)
  show ?thesis
    by (rule exI [of _ f'],
        rule exI [of _ "say (if for_us ss p then ''Sending packet'' else ''Receiving packet'') [] w'"])
      (use r l g14 is_our_mac_pkt [OF p(1) assms(3)] lookup_tuple_of_pkt [OF p(1)]
       in \<open>simp add: TCPPcap_get_buf_fr_io_def Let_def g(2) cong: option.case_cong\<close>)
qed

lemma get_refines_new:
  assumes r: "replays ss h b a" and e: "env_ok h env" "sock_state_wf ss" and t: "trace a = p # ps"
    and None: "map_of (tcp_flows b) (pkt_key ss p) = None"
  shows "\<exists>pkt w' b' a'. TCPPcap_get_buf_fr_io env ss (w, b) = Inr (pkt, w', b') \<and>
    replay_step ss a pkt a' \<and> replays ss h b' a'"
proof -
  let ?k = "pkt_key ss p" and ?a = "a\<lparr>trace := ps, known := insert (pkt_key ss p) (known a)\<rparr>"
  obtain f w' where f: "file_holds f ps" and g: "TCPPcap_get_buf_fr_io env ss (w, b) =
      bindE (get_new (for_us ss p) ?k p (b\<lparr>pcap_file := f\<rparr>)) (\<lambda>(pkt, b). Inr (pkt, w', b))"
    using get_record [OF r e t, of w] None by auto
  have p: "pkt_ok p" "p \<noteq> []" and inv: "tcp_inv (b\<lparr>pcap_file := f\<rparr>)"
    using r t by (auto simp: replays_def pkt_ok_def tcp_inv_def)
  have new: "?k \<notin> known a" "held a ?k = []" "ack_of b ?k = None"
    using r None by (auto simp: replays_def queue_of_def ack_of_def)
  let ?b = "\<lambda>c. b\<lparr>pcap_file := f, tcp_flows := tcp_flows b @ [(?k, c)]\<rparr>"
  have m: "map_of (tcp_flows (?b c)) = (map_of (tcp_flows b))(?k \<mapsto> c)" for c
    using map_of_snoc [OF None] by simp
  show ?thesis
  proof (cases "for_us ss p")
    case True
    have "is_syn p" using replays_syn [OF r new(3)] new(2) t True by (simp add: pending_def sent_on_def)
    then obtain c where c: "buf_process_helper p (TCPMimic_new False) = Inr c" "my_expected_ack c \<noteq> None"
      using buf_process_helper_pkt [OF p(1)] by blast
    have st: "replay_step ss a p ?a" by (rule open_flow) (use t True new in auto)
    have "replays ss h (?b c) ?a"
      by (rule replays_upd [OF r st _ _ m])
        (use f tcp_inv_insert [OF inv, of c ?k] buf_process_helper_frame [OF c(1)] c(2) None new t
         in \<open>auto simp: TCPMimic_new_def fun_eq_iff\<close>)
    with st g True c(1) show ?thesis by (auto simp: get_new_def Let_def)
  next
    case False
    let ?c = "put_pkts_to_recv_back p (TCPMimic_new False)"
    have st: "replay_step ss a [] ?a" by (rule note_ref) (use t False in auto)
    have "replays ss h (?b ?c) ?a"
      by (rule replays_upd [OF r st _ _ m])
        (use f tcp_inv_insert [OF inv, of ?c ?k] None new t
         in \<open>auto simp: TCPMimic_new_def put_pkts_to_recv_back_def fun_eq_iff\<close>)
    with st g False show ?thesis by (auto simp: get_new_def Let_def)
  qed
qed

lemma get_refines_existing:
  assumes r: "replays ss h b a" and e: "env_ok h env" "sock_state_wf ss" and t: "trace a = p # ps"
    and Some: "map_of (tcp_flows b) (pkt_key ss p) = Some c"
  shows "\<exists>pkt w' b' a'. TCPPcap_get_buf_fr_io env ss (w, b) = Inr (pkt, w', b') \<and>
    replay_step ss a pkt a' \<and> replays ss h b' a'"
proof -
  let ?k = "pkt_key ss p"
  obtain f w' where f: "file_holds f ps" and g: "TCPPcap_get_buf_fr_io env ss (w, b) =
      bindE (get_existing (for_us ss p) ?k c p (b\<lparr>pcap_file := f\<rparr>)) (\<lambda>(pkt, b). Inr (pkt, w', b))"
    using get_record [OF r e t, of w] Some by auto
  have inv: "tcp_inv (b\<lparr>pcap_file := f\<rparr>)" using r by (simp add: replays_def tcp_inv_def)
  have old: "?k \<in> known a" "held a ?k = pkts_to_send c" "ack_of b ?k = my_expected_ack c"
      "\<not> handshake_done c"
    using r Some tcp_inv_flow [of b ?k c] by (auto simp: queue_of_def ack_of_def replays_def)
  let ?b = "\<lambda>c. b\<lparr>pcap_file := f, tcp_flows := AList.update ?k c (tcp_flows b)\<rparr>"
  have m: "map_of (tcp_flows (?b c)) = (map_of (tcp_flows b))(?k \<mapsto> c)" for c
    by (simp add: update_conv')
  show ?thesis
  proof (cases "for_us ss p")
    case True
    let ?c = "put_pkts_to_send_back p c" and ?a = "a\<lparr>trace := ps, held := (held a)(?k := held a ?k @ [p])\<rparr>"
    have st: "replay_step ss a [] ?a" by (rule hold) (use t True old in auto)
    have "replays ss h (?b ?c) ?a"
      by (rule replays_upd [OF r st _ _ m])
        (use f tcp_inv_update [OF inv, of ?c ?k] old t in \<open>auto simp: put_pkts_to_send_back_def\<close>)
    with st g True old(4) show ?thesis by (auto simp: get_existing_def Let_def get_handshake_done_def)
  next
    case False
    let ?c = "put_pkts_to_recv_back p c" and ?a = "a\<lparr>trace := ps, known := insert ?k (known a)\<rparr>"
    have st: "replay_step ss a [] ?a" by (rule note_ref) (use t False in auto)
    have "replays ss h (?b ?c) ?a"
      by (rule replays_upd [OF r st _ _ m])
        (use f tcp_inv_update [OF inv, of ?c ?k] old t
         in \<open>auto simp: put_pkts_to_recv_back_def fun_eq_iff\<close>)
    with st g False show ?thesis by (auto simp: get_existing_def Let_def)
  qed
qed

text \<open>The next packet of a queue can always be processed.\<close>

lemma replays_head:
  assumes r: "replays ss h b a" and m: "map_of (tcp_flows b) k = Some c" "pkts_to_send c = p # ps"
  shows "\<exists>c'. buf_process_helper p (c\<lparr>pkts_to_send := ps\<rparr>) = Inr c' \<and> my_expected_ack c' \<noteq> None"
proof (rule buf_process_helper_pkt)
  have q: "held a k = p # ps" "ack_of b k = my_expected_ack c"
    using r m by (simp_all add: replays_def queue_of_def ack_of_def)
  have ok: "\<forall>p \<in> set (held a k). pkt_ok p" using r unfolding replays_def by blast
  with q show "pkt_ok p" by simp
  show "is_syn p \<or> my_expected_ack (c\<lparr>pkts_to_send := ps\<rparr>) \<noteq> None"
    using replays_syn [OF r, of k] q by (auto simp: pending_def)
qed

text \<open>A call when the trace is exhausted.\<close>

lemma get_refines_exhausted:
  assumes r: "replays ss h b a" and e: "env_ok h env" and t: "trace a = []"
  shows "\<exists>pkt w' b' a'. TCPPcap_get_buf_fr_io env ss (w, b) = Inr (pkt, w', b') \<and>
    replay_step ss a pkt a' \<and> replays ss h b' a'"
proof -
  let ?g = "stack_garbage env" and ?keys = "key_order env (map fst (tcp_flows b))"
  obtain f where rd: "read_pcap_record (pcap_file b) ?g w = Inr (0, ?g, f, w)" and f: "file_holds f []"
    using r t read_held_nothing [of "pcap_file b" ?g w] by (auto simp: replays_def)
  let ?b = "b\<lparr>pcap_file := f\<rparr>"
  have "\<exists>c'. buf_process_helper p (c\<lparr>pkts_to_send := ps\<rparr>) = Inr c'"
    if "map_of (tcp_flows ?b) k = Some c" "pkts_to_send c = p # ps" for k c p ps
    using replays_head [OF r] that by fastforce
  then obtain pkt b' where d: "drain ?keys ?b = Inr (pkt, b')"
    using drain_ok [of ?b ?keys] by blast
  have "14 < length ?g" using env_okD(1) [OF e] by (simp add: sysenv_wf_def)
  then have g: "TCPPcap_get_buf_fr_io env ss (w, b) = Inr (pkt, w, b')"
    using rd d by (simp add: TCPPcap_get_buf_fr_io_def Let_def load_byte)
  have inv: "tcp_inv ?b" using r by (simp add: replays_def tcp_inv_def)
  from d have "\<exists>a'. replay_step ss a pkt a' \<and> replays ss h b' a'"
  proof (cases rule: drain_cases)
    case idle
    have "held a k = []" for k
    proof (cases "map_of (tcp_flows b) k")
      case (Some c)
      then have "k \<in> set (map fst (tcp_flows b))" by (force dest: map_of_SomeD)
      then have "k \<in> set ?keys" by (simp only: env_okD(3) [OF e])
      with idle(3) Some r show ?thesis by (simp add: replays_def queue_of_def)
    qed (use r in \<open>simp add: replays_def queue_of_def\<close>)
    then have "replay_step ss a [] a" by (rule replay_step.idle [OF t])
    moreover have "replays ss h ?b a"
      using r f t inv unfolding replays_def by simp
    ultimately show ?thesis using idle by auto
  next
    case (release k c ps c')
    have q: "held a k = pkt # ps" "k \<in> known a" using r release(2,3) by (auto simp: replays_def queue_of_def)
    have pk: "pkt_key ss pkt = k"
      using replay_wf_held [of ss a pkt k] q r by (simp add: replays_def)
    have st: "replay_step ss a pkt (a\<lparr>held := (held a)(k := ps)\<rparr>)" by (rule replay_step.release [OF t q(1)])
    note fr = buf_process_helper_frame [OF release(4)]
    have "my_expected_ack c' \<noteq> None" using replays_head [OF r _ release(3), of k] release(2,4) by auto
    then have "replays ss h b' (a\<lparr>held := (held a)(k := ps)\<rparr>)"
      by (intro replays_upd [OF r st, where k = k and c = c'])
        (use f t release(5) q pk fr tcp_inv_update [OF inv, of c' k] tcp_inv_flow [OF inv release(2)]
         in \<open>auto simp: update_conv'\<close>)
    with st show ?thesis by blast
  qed
  with g show ?thesis by blast
qed

lemma get_refines:
  assumes "replays ss h b a" "env_ok h env" "sock_state_wf ss"
  shows "\<exists>pkt w' b' a'. TCPPcap_get_buf_fr_io env ss (w, b) = Inr (pkt, w', b') \<and>
    replay_step ss a pkt a' \<and> replays ss h b' a'"
proof (cases "trace a")
  case (Cons p ps)
  then show ?thesis
    using get_refines_new [OF assms Cons] get_refines_existing [OF assms Cons]
    by (cases "map_of (tcp_flows b) (pkt_key ss p)") auto
qed (rule get_refines_exhausted [OF assms(1,2)])

text \<open>A packet of the hardware changes nothing of what is to be sent.\<close>

lemma put_refines:
  assumes r: "replays ss h b a" and p: "TCPPcap_put_buf_on_io env ss pkt (w, b) = Inr (n, w', b')"
  shows "replays ss h b' a"
  using p
proof (cases rule: TCPPcap_putE)
  case (flow k c c')
  have m: "map_of (tcp_flows b') = (map_of (tcp_flows b))(k \<mapsto> c')" using flow(4) by (simp add: update_conv')
  have "queue_of b' = queue_of b" "ack_of b' = ack_of b"
    using flow(2) put_on_flow_frame [OF flow(3)] m
    by (auto simp: queue_of_def ack_of_def fun_eq_iff split: option.splits)
  moreover have "dom (map_of (tcp_flows b')) = dom (map_of (tcp_flows b))" using flow(2) m by auto
  moreover have "tcp_inv b'" using r p tcp_trace.put_inv by (auto simp: replays_def)
  ultimately show ?thesis using r flow(4) by (simp add: replays_def)
qed (use r in simp)

section \<open>Runs\<close>

abbreviation backend_run ::
  "sock_state \<Rightarrow> io_op list \<Rightarrow> world \<times> TCPPcapTestingLib \<Rightarrow> (mem list \<times> world \<times> TCPPcapTestingLib) res" where
  "backend_run \<equiv> io_run TCPPcap_get_buf_fr_io TCPPcap_put_buf_on_io"

text \<open>The environments of the requests of a run, and the packets that the hardware sends.\<close>

fun get_envs :: "io_op list \<Rightarrow> sysenv list" where
  "get_envs [] = []"
| "get_envs (GetOp env # ops) = env # get_envs ops"
| "get_envs (PutOp env p # ops) = get_envs ops"

fun put_pkts :: "io_op list \<Rightarrow> mem list" where
  "put_pkts [] = []"
| "put_pkts (GetOp env # ops) = put_pkts ops"
| "put_pkts (PutOp env p # ops) = p # put_pkts ops"

lemma get_envs_append [simp]: "get_envs (xs @ ys) = get_envs xs @ get_envs ys"
  by (induction xs rule: get_envs.induct) auto

lemma put_pkts_append [simp]: "put_pkts (xs @ ys) = put_pkts xs @ put_pkts ys"
  by (induction xs rule: put_pkts.induct) auto

lemma get_envs_map [simp]: "get_envs (map GetOp envs) = envs"
  by (induction envs) auto

lemma list_all_env_ok:
  "list_all (env_ok h) envs \<longleftrightarrow> list_all host_ok envs \<and> list_all (\<lambda>env. stack_ihl env = h) envs"
  by (auto simp: env_ok_def list_all_iff)

text \<open>The packets handed out on flow \<open>k\<close>, in order.\<close>

definition handed_out :: "sock_state \<Rightarrow> TCPFlowTuple \<Rightarrow> mem list \<Rightarrow> mem list" where
  "handed_out ss k outs = sent_on ss k (filter (\<lambda>p. p \<noteq> []) outs)"

lemma handed_out_Cons: "handed_out ss k (p # outs) = delivered ss k p @ handed_out ss k outs"
  by (simp add: handed_out_def delivered_def sent_on_def)

lemma backend_run_replays:
  assumes "sock_state_wf ss"
  shows "replays ss h b a \<Longrightarrow> list_all (env_ok h) (get_envs ops) \<Longrightarrow>
    backend_run ss ops (w, b) = Inr (outs, w', b') \<Longrightarrow>
    \<exists>a'. replays ss h b' a' \<and> work a' \<le> work a - length outs \<and>
      (\<forall>k. pending ss a k = handed_out ss k outs @ pending ss a' k)"
proof (induction ops arbitrary: w b a outs)
  case Nil
  then show ?case by (auto simp: handed_out_def sent_on_def)
next
  case (Cons op ops)
  show ?case
  proof (cases op)
    case (GetOp env)
    with Cons.prems have "env_ok h env" by simp
    from get_refines [OF Cons.prems(1) this assms, of w] obtain p w1 b1 a1 where
      1: "TCPPcap_get_buf_fr_io env ss (w, b) = Inr (p, w1, b1)" "replay_step ss a p a1" "replays ss h b1 a1"
      by blast
    with Cons.prems(3) GetOp obtain outs' where
      2: "backend_run ss ops (w1, b1) = Inr (outs', w', b')" "outs = p # outs'"
      by (auto simp: res_simps)
    from Cons.IH [OF 1(3) _ 2(1)] Cons.prems(2) GetOp obtain a' where
      3: "replays ss h b' a'" "work a' \<le> work a1 - length outs'"
        "\<And>k. pending ss a1 k = handed_out ss k outs' @ pending ss a' k"
      by auto
    have wf: "replay_wf ss a" using Cons.prems(1) by (simp add: replays_def)
    have "work a' \<le> work a - length outs" using work_step [OF 1(2) wf] 3(2) 2(2) by auto
    with 3 2(2) replay_step_pending [OF 1(2) wf] show ?thesis
      by (intro exI [of _ a']) (simp add: handed_out_Cons)
  next
    case (PutOp env pkt)
    with Cons.prems(3) obtain n w1 b1 where
      1: "TCPPcap_put_buf_on_io env ss pkt (w, b) = Inr (n, w1, b1)" "backend_run ss ops (w1, b1) = Inr (outs, w', b')"
      by (auto simp: res_simps)
    show ?thesis using Cons.IH [OF put_refines [OF Cons.prems(1) 1(1)] _ 1(2)] Cons.prems(2) PutOp by simp
  qed
qed

lemma backend_gets_return:
  assumes "sock_state_wf ss"
  shows "replays ss h b a \<Longrightarrow> \<forall>env \<in> set envs. env_ok h env \<Longrightarrow> backend_life w \<noteq> Dead \<Longrightarrow>
    \<exists>outs s. backend_run ss (map GetOp envs) (w, b) = Inr (outs, s) \<and> length outs = length envs"
proof (induction envs arbitrary: w b a)
  case Nil
  then show ?case by simp
next
  case (Cons env envs)
  then obtain p w1 b1 a1 where
    1: "TCPPcap_get_buf_fr_io env ss (w, b) = Inr (p, w1, b1)" "replays ss h b1 a1"
    using get_refines [OF _ _ assms, of h b a env w] by auto
  have "backend_life w1 = backend_life w" using tcp_trace.get_life [OF 1(1)] .
  with 1(1) Cons.IH [OF 1(2), of w1] Cons.prems(2,3) show ?case by auto
qed

section \<open>From the constructor on\<close>

text \<open>Traces that the replayer is meant for: per flow the first packet to send is a SYN.\<close>

definition good_trace :: "sock_state \<Rightarrow> nat \<Rightarrow> mem list \<Rightarrow> bool" where
  "good_trace ss h ps \<longleftrightarrow> list_all (\<lambda>p. pkt_ok p \<and> ihl_of p = h) ps \<and>
     list_all (\<lambda>p. for_us ss p \<longrightarrow> is_syn (hd (sent_on ss (pkt_key ss p) ps))) ps"

lemma good_trace_syn:
  assumes "good_trace ss h ps"
  shows "sent_on ss k ps = [] \<or> is_syn (hd (sent_on ss k ps))"
proof (cases "sent_on ss k ps")
  case (Cons p qs)
  then have "p \<in> set (sent_on ss k ps)" by simp
  then have "p \<in> set ps" "for_us ss p" "pkt_key ss p = k" by (auto simp: sent_on_def)
  with assms show ?thesis unfolding good_trace_def list_all_iff by blast
qed simp

lemma new_replays:
  assumes "fopen name ''rb'' = Some f" "pcap_trace_file f ps" "good_trace ss h ps"
  shows "\<exists>b. TCPPcapTestingLib_new fopen name w = Inr (w, b) \<and> replays ss h b (replay_start ps)"
proof -
  obtain g where c: "consumePCAPHeader f = (0, g)" and "file_holds g ps"
    using consume_trace_file [OF assms(2)] by blast
  then have "replays ss h \<lparr>pcap_file = g, tcp_flows = []\<rparr> (replay_start ps)"
    using assms(3) good_trace_syn [OF assms(3)]
    by (auto simp: replays_def replay_start_def tcp_inv_def replay_wf_def queue_of_def ack_of_def
        pending_def good_trace_def list_all_iff pkt_ok_def fun_eq_iff)
  with assms(1) c show ?thesis by (simp add: TCPPcapTestingLib_new_def)
qed

text \<open>
  C4: let every request find, in the uninitialised byte of its stack array that the code reads as the
  IP header length, the header length that all packets of the trace have. Then, whatever the hardware
  sends in between, for every flow the packets handed to the simulation are, in order and without
  repetition, an initial part of the packets of the trace to be sent on that flow. Without the
  hypothesis on the stack byte this is false (\<open>replay_overtakes_example\<close> of \<open>TCP_Conserve\<close>).
\<close>

theorem replay_in_order:
  assumes "sock_state_wf ss" "fopen name ''rb'' = Some f" "pcap_trace_file f ps" "good_trace ss h ps"
    and "TCPPcapTestingLib_new fopen name w = Inr (w1, b)"
    and "list_all host_ok (get_envs ops)" and stack_byte: "list_all (\<lambda>env. stack_ihl env = h) (get_envs ops)"
    and "backend_run ss ops (w1, b) = Inr (outs, w2, b')"
  shows "prefix (handed_out ss k outs) (sent_on ss k ps)"
proof -
  have "replays ss h b (replay_start ps)" using new_replays [of fopen name f ps ss h w] assms(2-5) by auto
  from backend_run_replays [OF assms(1) this _ assms(8)] assms(6) stack_byte obtain a' where
    "pending ss (replay_start ps) k = handed_out ss k outs @ pending ss a' k"
    by (auto simp: list_all_env_ok)
  then show ?thesis by (simp add: pending_def replay_start_def)
qed

lemma ex_setup:
  "sock_state_wf ex_ss" "pcap_trace_file ex_file [ex_pkt TCP_SYN, ex_pkt TCP_ACK]"
  "good_trace ex_ss 5 [ex_pkt TCP_SYN, ex_pkt TCP_ACK]" "env_ok 5 ex_env"
  "host_ok ex_env" "stack_ihl ex_env = 5"
proof -
  show "good_trace ex_ss 5 [ex_pkt TCP_SYN, ex_pkt TCP_ACK]" by code_simp
  show "host_ok ex_env" by (simp add: host_ok_def ex_wf) (simp add: ex_env_def)
  moreover show "stack_ihl ex_env = 5" by (simp add: stack_ihl_def ex_env_def)
  ultimately show "env_ok 5 ex_env" by (simp add: env_ok_def)
qed (rule ex_wf)+

theorem replay_in_order_witness:
  "\<exists>b outs s. TCPPcapTestingLib_new (\<lambda>_ _. Some ex_file) [] \<lparr>backend_life = NullPtr, out = []\<rparr> =
      Inr (\<lparr>backend_life = NullPtr, out = []\<rparr>, b) \<and>
    backend_run ex_ss [GetOp ex_env] (\<lparr>backend_life = NullPtr, out = []\<rparr>, b) = Inr (outs, s) \<and>
    prefix (handed_out ex_ss (pkt_key ex_ss (ex_pkt TCP_SYN)) outs)
      (sent_on ex_ss (pkt_key ex_ss (ex_pkt TCP_SYN)) [ex_pkt TCP_SYN, ex_pkt TCP_ACK])"
proof -
  let ?w = "\<lparr>backend_life = NullPtr, out = []\<rparr>" and ?ps = "[ex_pkt TCP_SYN, ex_pkt TCP_ACK]"
  obtain b where b: "TCPPcapTestingLib_new (\<lambda>_ _. Some ex_file) [] ?w = Inr (?w, b)"
      "replays ex_ss 5 b (replay_start ?ps)"
    using new_replays [of "\<lambda>_ _. Some ex_file" "[]" ex_file ?ps ex_ss 5 ?w] ex_setup by auto
  obtain outs w' b' where o: "backend_run ex_ss [GetOp ex_env] (?w, b) = Inr (outs, w', b')"
    using backend_gets_return [OF ex_setup(1) b(2), of "[ex_env]" ?w] ex_setup(4) by auto
  have "list_all host_ok (get_envs [GetOp ex_env])" "list_all (\<lambda>env. stack_ihl env = 5) (get_envs [GetOp ex_env])"
    using ex_setup(5,6) by simp_all
  from replay_in_order [of ex_ss "\<lambda>_ _. Some ex_file" "[]" ex_file ?ps 5 ?w ?w b, OF ex_setup(1) _ ex_setup(2,3) b(1) this o]
  show ?thesis using b(1) o by auto
qed

text \<open>
  C3: let every request find, in the uninitialised byte of its stack array that the code reads as the
  IP header length, the header length that all packets of the trace have. Then a simulation that only
  asks for packets gets all of them: after at least two requests per packet of the trace every call
  has returned, and for every flow exactly the packets of the trace to be sent on it were handed out,
  in order. Without the hypothesis on the stack byte a request can fault (\<open>replay_faults_example\<close> of
  \<open>TCP_Conserve\<close>).
\<close>

theorem replay_complete:
  assumes "sock_state_wf ss" "fopen name ''rb'' = Some f" "pcap_trace_file f ps" "good_trace ss h ps"
    and "backend_life w \<noteq> Dead" "2 * length ps \<le> length envs"
    and "list_all host_ok envs" and stack_byte: "list_all (\<lambda>env. stack_ihl env = h) envs"
  shows "\<exists>b outs s. TCPPcapTestingLib_new fopen name w = Inr (w, b) \<and>
    backend_run ss (map GetOp envs) (w, b) = Inr (outs, s) \<and>
    (\<forall>k. handed_out ss k outs = sent_on ss k ps)"
proof -
  have e: "list_all (env_ok h) envs" using assms(7) stack_byte by (simp add: list_all_env_ok)
  obtain b where b: "TCPPcapTestingLib_new fopen name w = Inr (w, b)" "replays ss h b (replay_start ps)"
    using new_replays [of fopen name f ps ss h w] assms(2-4) by auto
  obtain outs w' b' where o: "backend_run ss (map GetOp envs) (w, b) = Inr (outs, w', b')"
      "length outs = length envs"
    using backend_gets_return [OF assms(1) b(2), of envs w] assms(5) e by (auto simp: list_all_iff)
  from backend_run_replays [OF assms(1) b(2) _ o(1)] e obtain a' where
    a': "replays ss h b' a'" "work a' \<le> work (replay_start ps) - length outs"
      "\<And>k. pending ss (replay_start ps) k = handed_out ss k outs @ pending ss a' k"
    by auto
  have "work a' = 0" using a'(2) o(2) assms(6) by (simp add: work_def replay_start_def)
  then have "pending ss a' k = []" for k using a'(1) work_0 [of ss a'] by (simp add: replays_def)
  with a'(3) have "handed_out ss k outs = sent_on ss k ps" for k
    by (simp add: pending_def replay_start_def)
  with b(1) o(1) show ?thesis by auto
qed

theorem replay_complete_witness:
  "\<exists>b outs s. TCPPcapTestingLib_new (\<lambda>_ _. Some ex_file) [] \<lparr>backend_life = NullPtr, out = []\<rparr> =
      Inr (\<lparr>backend_life = NullPtr, out = []\<rparr>, b) \<and>
    backend_run ex_ss (map GetOp (replicate 4 ex_env)) (\<lparr>backend_life = NullPtr, out = []\<rparr>, b) = Inr (outs, s) \<and>
    (\<forall>k. handed_out ex_ss k outs = sent_on ex_ss k [ex_pkt TCP_SYN, ex_pkt TCP_ACK])"
  by (rule replay_complete [where f = ex_file and h = 5]) (use ex_setup in \<open>simp_all add: list_all_iff\<close>)

section \<open>What a run never does\<close>

text \<open>
  C32: the handshake of a flow is never found to be complete: in every state that a run reaches
  from the constructor, a request that finds a record in the trace and is answered with a packet
  is answered with the packet just read, which opens a new flow; packets of known flows are only
  released after the trace has ended.
\<close>

theorem only_openers_while_trace_lasts:
  assumes "TCPPcapTestingLib_new fopen name w = Inr (w1, b)"
    and "backend_run ss ops (w1, b) = Inr (outs, w2, b2)"
    and g: "TCPPcap_get_buf_fr_io env ss (w2, b2) = Inr (pkt, w3, b3)" "pkt \<noteq> []"
    and rd: "read_pcap_record (pcap_file b2) (stack_garbage env) w2 = Inr (n, buffer, f, w')" "0 < n"
  shows "\<exists>k c. k \<notin> set (map fst (tcp_flows b2)) \<and> tcp_flows b3 = tcp_flows b2 @ [(k, c)] \<and>
    pkt = take (nat n) buffer"
proof -
  have "tcp_inv b"
    using assms(1)
    by (auto simp: TCPPcapTestingLib_new_def Let_def res_simps tcp_inv_def split: option.splits prod.splits)
  then have inv: "tcp_inv b2" using tcp_trace.run_inv assms(2) by blast
  from g(1) show ?thesis
  proof (cases rule: TCPPcap_getE)
    case (packet n' buffer' f' w1' sp key)
    with rd have e: "n' = n" "buffer' = buffer" "f' = f" by auto
    show ?thesis
    proof (cases "map_of (tcp_flows b2) key")
      case None
      with packet(5) g(2) e show ?thesis
        by (intro exI [of _ key]) (auto simp: get_new_def Let_def res_simps map_of_eq_None_iff split: if_splits)
    next
      case (Some c)
      with packet(5) g(2) tcp_inv_flow [OF inv Some] show ?thesis
        by (auto simp: get_existing_def Let_def get_handshake_done_def split: if_splits)
    qed
  qed (use rd in auto)
qed

theorem only_openers_while_trace_lasts_witness:
  "\<exists>b pkt w' b'. TCPPcapTestingLib_new (\<lambda>_ _. Some ex_file) [] \<lparr>backend_life = NullPtr, out = []\<rparr> =
      Inr (\<lparr>backend_life = NullPtr, out = []\<rparr>, b) \<and>
    TCPPcap_get_buf_fr_io ex_env ex_ss (\<lparr>backend_life = NullPtr, out = []\<rparr>, b) = Inr (pkt, w', b') \<and>
    pkt = ex_pkt TCP_SYN \<and> (\<exists>k c. tcp_flows b' = tcp_flows b @ [(k, c)])"
proof -
  let ?w = "\<lparr>backend_life = NullPtr, out = []\<rparr>" and ?ps = "[ex_pkt TCP_SYN, ex_pkt TCP_ACK]"
  let ?p = "ex_pkt TCP_SYN" and ?g = "stack_garbage ex_env"
  obtain b where b: "TCPPcapTestingLib_new (\<lambda>_ _. Some ex_file) [] ?w = Inr (?w, b)"
      "replays ex_ss 5 b (replay_start ?ps)"
    using new_replays [of "\<lambda>_ _. Some ex_file" "[]" ex_file ?ps ex_ss 5 ?w] ex_setup by auto
  obtain pkt w' b' a' where g: "TCPPcap_get_buf_fr_io ex_env ex_ss (?w, b) = Inr (pkt, w', b')"
      "replay_step ex_ss (replay_start ?ps) pkt a'"
    using get_refines [OF b(2) ex_setup(4,1)] by blast
  have "for_us ex_ss ?p" by code_simp
  then have pkt: "pkt = ?p" using g(2) by (auto elim!: replay_stepE simp: replay_start_def)
  obtain f w1 where r: "read_pcap_record (pcap_file b) ?g ?w = Inr (int (length ?p), ?p @ drop (length ?p) ?g, f, w1)"
    using read_held_record [of "pcap_file b" ?p "[ex_pkt TCP_ACK]" ?g ?w] b(2)
    by (auto simp: replays_def replay_start_def ex_pkt_def ex_env_def)
  have "pkt \<noteq> []" "0 < int (length ?p)" by (simp_all add: pkt ex_pkt_def)
  from only_openers_while_trace_lasts [of _ "[]" _ _ _ _ "[]", OF b(1) _ g(1) this(1) r this(2)] show ?thesis
    using b(1) g(1) pkt by auto
qed

section \<open>The stack byte\<close>

text \<open>
  C39: for the first packet of a trace, the ports of the flow key are taken from the buffer at an
  offset that is computed from what the stack held before the packet was read, not from the
  packet's own header length.
\<close>

theorem flow_key_ports_from_stack_byte:
  assumes p: "pkt_ok p" "for_us ss p" "is_syn p" and b: "file_holds (pcap_file b) (p # ps)" "tcp_flows b = []"
    and e: "sysenv_wf env" "sock_state_wf ss"
    and off: "off = 14 + 4 * unat (stack_garbage env ! 14 AND 0xf)"
  shows "\<exists>w' b' k. TCPPcap_get_buf_fr_io env ss (w, b) = Inr (p, w', b') \<and>
    map fst (tcp_flows b') = [k] \<and>
    bytes_of 2 (my_port k) @ bytes_of 2 (their_port k) =
      take 4 (drop off (p @ drop (length p) (stack_garbage env)))"
proof -
  let ?g = "stack_garbage env" let ?buf = "p @ drop (length p) ?g"
  have g: "length ?g = 2048" using e by (simp add: sysenv_wf_def)
  have l: "p \<noteq> []" "length p \<le> length ?g" "length p < 2 ^ 31" using p(1) g by (auto simp: pkt_ok_def)
  obtain f w1 where r: "read_pcap_record (pcap_file b) ?g w = Inr (int (length p), ?buf, f, w1)"
    using read_held_record [OF b(1) l, of w] by blast
  have o: "off + 4 \<le> length ?buf" using off unat_low_nibble_less [of "?g ! 14"] g l(2) by simp
  obtain c where c: "buf_process_helper p (TCPMimic_new False) = Inr c"
    using buf_process_helper_pkt [OF p(1)] p(3) by blast
  let ?k = "\<lparr>my_ip = word_of_bytes (take 4 (drop 26 ?buf)), their_ip = word_of_bytes (take 4 (drop 30 ?buf)),
      my_port = word_of_bytes (take 2 (drop off ?buf)), their_port = word_of_bytes (take 2 (drop (off + 2) ?buf))\<rparr>"
  have "lookup_tuple_of ?buf off True = Inr ?k"
    unfolding lookup_tuple_of_def using o g l(2) p(1) by (simp add: load_def pkt_ok_def)
  moreover have "load (Suc 0) ?g 14 = Inr (?g ! 14)" using g by (simp add: load_byte)
  ultimately have "TCPPcap_get_buf_fr_io env ss (w, b) =
      Inr (p, say ''Sending packet'' [] w1, b\<lparr>pcap_file := f, tcp_flows := [(?k, c)]\<rparr>)"
    using r l is_our_mac_pkt [OF p(1) e(2)] p(2) b(2) c
    by (simp add: TCPPcap_get_buf_fr_io_def Let_def off get_new_def)
  moreover have "bytes_of 2 (my_port ?k) @ bytes_of 2 (their_port ?k) = take 4 (drop off ?buf)"
  proof -
    have "take 2 (drop off ?buf) @ take 2 (drop (off + 2) ?buf) = take 4 (drop off ?buf)"
      using take_add [of 2 2 "drop off ?buf"] by (simp only: drop_drop) (simp add: add.commute)
    then show ?thesis using o by (simp add: bytes_of_word_of_bytes)
  qed
  ultimately show ?thesis by simp
qed

theorem flow_key_ports_from_stack_byte_witness:
  "\<exists>w' b' k. TCPPcap_get_buf_fr_io (ex_env\<lparr>stack_garbage := replicate 2048 0\<rparr>) ex_ss
      (\<lparr>backend_life = NullPtr, out = []\<rparr>, \<lparr>pcap_file = ex_file\<lparr>fpos := 24\<rparr>, tcp_flows = []\<rparr>) =
      Inr (ex_pkt TCP_SYN, w', b') \<and>
    map fst (tcp_flows b') = [k] \<and> bytes_of 2 (my_port k) @ bytes_of 2 (their_port k) = [0x45, 0, 0, 40]"
proof -
  let ?env = "ex_env\<lparr>stack_garbage := replicate 2048 0\<rparr>"
  have p: "pkt_ok (ex_pkt TCP_SYN)" "for_us ex_ss (ex_pkt TCP_SYN)" "is_syn (ex_pkt TCP_SYN)" by code_simp+
  have f: "file_holds (ex_file\<lparr>fpos := 24\<rparr>) [ex_pkt TCP_SYN, ex_pkt TCP_ACK]"
    unfolding file_holds_def ex_file_def
    by (rule exI [of _ pcap_header_bytes], rule exI [of _ "[(0, 0), (1, 0)]"]) (simp add: pcap_header_bytes_def)
  have e: "sysenv_wf ?env" by (simp add: sysenv_wf_def)
  have o: "14 = 14 + 4 * unat (stack_garbage ?env ! 14 AND 0xf)" by simp
  show ?thesis
    using flow_key_ports_from_stack_byte [OF p _ _ e ex_setup(1) o,
        of "\<lparr>pcap_file = ex_file\<lparr>fpos := 24\<rparr>, tcp_flows = []\<rparr>"] f
    by (auto simp: ex_pkt_def)
qed

end
