(* ===== verification/TCP_Compare.thy ===== *)
theory TCP_Compare
  imports TCP_Pcap_Trace_Testing Packet_Compare
begin

text \<open>
  What the replayer of \<^verbatim>\<open>src/sim_dpi/tcp_pcap_trace_testing_lib.cpp\<close> checks: reference packets of
  a flow (from the trace) and packets of the hardware for that flow may arrive in any
  interleaving. Here: what one packet of the hardware does to its flow, the history of a flow as a
  list of \<open>flow_op\<close>s, and what happens when the sizes of two paired packets differ. Theory
  \<open>TCP_Check\<close> has the runs.
\<close>

section \<open>One comparison\<close>

lemma TCPPcap_compare_bufs_same:
  assumes "length r = length t"
  shows "\<exists>w'. TCPPcap_compare_bufs r t w = Inr w' \<and> backend_life w' = backend_life w \<and>
    mismatches w' = mismatches w @ diff_reports r t"
  using assms by (simp add: TCPPcap_compare_bufs_def Let_def mismatches_compare_loop)

section \<open>One packet of the hardware\<close>

lemma compare_pending_spec:
  assumes "backend_life w = Alive" "same_sizes (zip (pkts_to_recv c) (pkts_recved_buf c))"
    "n = min (length (pkts_to_recv c)) (length (pkts_recved_buf c))"
  shows "\<exists>w'. compare_pending c w =
      Inr (w', c\<lparr>pkts_to_recv := drop n (pkts_to_recv c), pkts_recved_buf := drop n (pkts_recved_buf c)\<rparr>) \<and>
    backend_life w' = Alive \<and>
    mismatches w' = mismatches w @ reports (zip (pkts_to_recv c) (pkts_recved_buf c))"
  using assms
proof (induction n arbitrary: c w)
  case 0
  then have "pkts_to_recv c = [] \<or> pkts_recved_buf c = []"
    by (auto simp: min_def split: if_splits)
  with 0 show ?case
    by (subst compare_pending.simps) (auto simp: mimic_queue_defs)
next
  case (Suc n)
  then obtain r rs t ts where q: "pkts_to_recv c = r # rs" "pkts_recved_buf c = t # ts"
    by (cases "pkts_to_recv c"; cases "pkts_recved_buf c") auto
  let ?c = "c\<lparr>pkts_to_recv := rs, pkts_recved_buf := ts\<rparr>"
  from Suc.prems q have rt: "length r = length t" and ss: "same_sizes (zip rs ts)"
    by (simp_all add: same_sizes_def)
  obtain w1 where w1: "TCPPcap_compare_bufs r t w = Inr w1" "backend_life w1 = Alive"
      "mismatches w1 = mismatches w @ diff_reports r t"
    using TCPPcap_compare_bufs_same [OF rt, of w] Suc.prems(1) by auto
  have "compare_pending c w = compare_pending ?c w1"
    using Suc.prems(1) q w1(1) by (subst compare_pending.simps) (simp add: mimic_queue_defs)
  moreover have "n = min (length (pkts_to_recv ?c)) (length (pkts_recved_buf ?c))"
    using Suc.prems(3) q by simp
  ultimately show ?case
    using Suc.IH [of w1 ?c] w1 ss q by auto
qed

lemma put_on_flow_spec:
  assumes alive: "backend_life w = Alive"
    and sizes: "same_sizes (zip (pkts_to_recv c) (pkts_recved_buf c @ [p]))"
    and n: "n = min (length (pkts_to_recv c)) (Suc (length (pkts_recved_buf c)))"
  shows "\<exists>w' c'. put_on_flow p c w = Inr (w', c') \<and> backend_life w' = Alive \<and>
    pkts_to_recv c' = drop n (pkts_to_recv c) \<and> pkts_recved_buf c' = drop n (pkts_recved_buf c @ [p]) \<and>
    mismatches w' = mismatches w @ reports (zip (pkts_to_recv c) (pkts_recved_buf c @ [p]))"
proof -
  let ?rs = "pkts_to_recv c" and ?ts = "pkts_recved_buf c"
  let ?n = "min (length ?rs) (length ?ts)"
  let ?w = "say ''%lu packets to receive'' [uint (pkts_to_recv_size c)]
    (say ''Receive trace found an entry'' [] w)"
  let ?c = "c\<lparr>pkts_to_recv := drop ?n ?rs, pkts_recved_buf := drop ?n ?ts\<rparr>"
  have zip: "zip ?rs ?ts = zip (take (length ?ts) ?rs) ?ts"
    "zip ?rs (?ts @ [p]) = zip ?rs ?ts @ zip (drop (length ?ts) ?rs) [p]"
    using zip_append2 [of ?rs ?ts "[]"] zip_append2 [of ?rs ?ts "[p]"] by simp_all
  then have "same_sizes (zip ?rs ?ts)" using sizes by (simp add: same_sizes_def)
  then obtain w1 where w1: "compare_pending c ?w = Inr (w1, ?c)" "backend_life w1 = Alive"
      "mismatches w1 = mismatches w @ reports (zip ?rs ?ts)"
    using compare_pending_spec [of ?w c ?n] alive by auto
  show ?thesis
  proof (cases "length ?rs \<le> length ?ts")
    case True
    then have e: "pkts_to_recv_empty ?c" and nn: "?n = n" and z: "zip ?rs (?ts @ [p]) = zip ?rs ?ts"
      using n zip(2) by (simp_all add: pkts_to_recv_empty_def)
    have "put_on_flow p c w = Inr (say ''No packets to compare to'' [] w1, put_pkts_recved_back p ?c)"
      unfolding put_on_flow_def Let_def w1(1) using e by simp
    moreover have "drop n (?ts @ [p]) = drop n ?ts @ [p]" using True n by simp
    ultimately show ?thesis
      using w1(2,3) nn z by (simp add: put_pkts_recved_back_def)
  next
    case False
    then obtain r rest where d: "drop (length ?ts) ?rs = r # rest"
      by (metis drop_eq_Nil list.exhaust)
    then have rest: "rest = drop (Suc (length ?ts)) ?rs" by (metis drop_Suc list.sel(3) tl_drop)
    have "length r = length p" using sizes zip(2) d by (simp add: same_sizes_def)
    from TCPPcap_compare_bufs_same [OF this, of w1] obtain w2 where
      w2: "TCPPcap_compare_bufs r p w1 = Inr w2" "backend_life w2 = Alive"
        "mismatches w2 = mismatches w1 @ diff_reports r p"
      using w1(2) by auto
    have nn: "?n = length ?ts" "n = Suc (length ?ts)" using False n by simp_all
    have "put_on_flow p c w = Inr (w2, ?c\<lparr>pkts_to_recv := rest\<rparr>)"
      unfolding put_on_flow_def Let_def w1(1) using nn(1) d w2(1)
      by (simp add: pkts_to_recv_empty_def get_pkts_to_recv_front_def)
    moreover have "reports (zip ?rs (?ts @ [p])) = reports (zip ?rs ?ts) @ diff_reports r p"
      unfolding zip(2) d by simp
    ultimately show ?thesis
      using w1(3) w2(2,3) nn rest by simp
  qed
qed

section \<open>The history of a flow\<close>

text \<open>
  What happens to one flow: the trace yields a reference packet (queued by \<open>get_buf_fr_io\<close>), or
  the hardware sends a packet (\<open>put_buf_on_io\<close>).
\<close>

datatype flow_op = Ref mem | Test mem

fun refs_of :: "flow_op list \<Rightarrow> mem list" where
  "refs_of [] = []"
| "refs_of (Ref p # ops) = p # refs_of ops"
| "refs_of (Test p # ops) = refs_of ops"

fun tests_of :: "flow_op list \<Rightarrow> mem list" where
  "tests_of [] = []"
| "tests_of (Ref p # ops) = tests_of ops"
| "tests_of (Test p # ops) = p # tests_of ops"

definition ends_with_test :: "flow_op list \<Rightarrow> bool" where
  "ends_with_test ops \<longleftrightarrow> ops \<noteq> [] \<and> (case last ops of Test _ \<Rightarrow> True | Ref _ \<Rightarrow> False)"

lemma zip_prefixes: "zip xs ys = take (min (length xs) (length ys)) (zip (xs @ xs') (ys @ ys'))"
proof -
  let ?m = "min (length xs) (length ys)"
  have "take ?m (zip (xs @ xs') (ys @ ys')) = take ?m (zip xs ys)" by (simp add: take_zip)
  then show ?thesis by simp
qed

section \<open>Packets of different sizes\<close>

text \<open>
  \<open>compare_bufs\<close> ends the simulation when the sizes differ, and that deletes the backend. In the
  loop over pending pairs the next evaluation of the loop condition reads the deleted object's
  flow table.
\<close>

lemma TCPPcap_compare_bufs_differ:
  assumes "length r \<noteq> length t" "backend_life w = Alive"
  shows "\<exists>w'. TCPPcap_compare_bufs r t w = Inr w' \<and> backend_life w' = Dead \<and>
    out w' = out w @ [Print ''Comparing bufs'' [], Print ''recved pkt different size'' [],
      Print ''ref size: %lu, recved size: %lu'' [int (length r), int (length t)], FinishFromC]"
  using assms by (simp add: TCPPcap_compare_bufs_def Let_def)

text \<open>
  C34: when a buffered packet of the hardware and its reference packet differ in size, the packet
  that triggers their comparison makes the backend use the flow's queues after
  \<open>finish_simulation\<close> has deleted the backend.
\<close>

theorem put_on_flow_size_mismatch_pending:
  assumes "backend_life w = Alive"
    and "pkts_to_recv c = r # rs" "pkts_recved_buf c = t # ts" "length r \<noteq> length t"
  shows "put_on_flow p c w = Inl UseAfterFree"
proof -
  let ?w = "say ''%lu packets to receive'' [uint (pkts_to_recv_size c)]
    (say ''Receive trace found an entry'' [] w)"
  obtain w' where w': "TCPPcap_compare_bufs r t ?w = Inr w'" "backend_life w' = Dead"
    using TCPPcap_compare_bufs_differ [OF assms(4), of ?w] assms(1) by auto
  have "compare_pending c ?w = compare_pending (c\<lparr>pkts_to_recv := rs, pkts_recved_buf := ts\<rparr>) w'"
    using assms w'(1) by (subst compare_pending.simps) (simp add: mimic_queue_defs)
  also have "\<dots> = Inl UseAfterFree"
    using w'(2) by (subst compare_pending.simps) simp
  finally show ?thesis unfolding put_on_flow_def Let_def by simp
qed

theorem put_on_flow_size_mismatch_pending_witness:
  "put_on_flow [9] ((TCPMimic_new False)\<lparr>pkts_to_recv := [[1, 2]], pkts_recved_buf := [[3]]\<rparr>)
     \<lparr>backend_life = Alive, out = []\<rparr> = Inl UseAfterFree"
  by (rule put_on_flow_size_mismatch_pending [of _ _ "[1, 2]" "[]" "[3]" "[]"])
    (simp_all add: TCPMimic_new_def)

text \<open>
  C33: when the packet of the hardware itself is compared, with no comparison pending, and its size
  differs from the reference packet's, the simulation is finished exactly once, after a report of
  both sizes.
\<close>

theorem put_on_flow_size_mismatch_direct:
  assumes "backend_life w = Alive"
    and "pkts_to_recv c = r # rs" "pkts_recved_buf c = []" "length r \<noteq> length p"
  shows "\<exists>w'. put_on_flow p c w = Inr (w', c\<lparr>pkts_to_recv := rs\<rparr>) \<and> backend_life w' = Dead \<and>
    finishes w' = Suc (finishes w) \<and>
    Print ''ref size: %lu, recved size: %lu'' [int (length r), int (length p)] \<in> set (out w')"
proof -
  let ?w = "say ''%lu packets to receive'' [uint (pkts_to_recv_size c)]
    (say ''Receive trace found an entry'' [] w)"
  obtain w' where w': "TCPPcap_compare_bufs r p ?w = Inr w'" "backend_life w' = Dead"
     "out w' = out ?w @ [Print ''Comparing bufs'' [], Print ''recved pkt different size'' [],
      Print ''ref size: %lu, recved size: %lu'' [int (length r), int (length p)], FinishFromC]"
    using TCPPcap_compare_bufs_differ [OF assms(4), of ?w] assms(1) by auto
  have "compare_pending c ?w = Inr (?w, c)"
    using assms by (subst compare_pending.simps) (simp add: mimic_queue_defs)
  then have "put_on_flow p c w = Inr (w', c\<lparr>pkts_to_recv := rs\<rparr>)"
    unfolding put_on_flow_def Let_def using assms(2) w'(1) by (simp add: mimic_queue_defs)
  with w'(2,3) show ?thesis by (simp add: finishes_def)
qed

theorem put_on_flow_size_mismatch_direct_witness:
  "\<exists>w'. put_on_flow [9] ((TCPMimic_new False)\<lparr>pkts_to_recv := [[1, 2]]\<rparr>)
     \<lparr>backend_life = Alive, out = []\<rparr> = Inr (w', TCPMimic_new False) \<and> backend_life w' = Dead"
  using put_on_flow_size_mismatch_direct
    [of "\<lparr>backend_life = Alive, out = []\<rparr>" "(TCPMimic_new False)\<lparr>pkts_to_recv := [[1, 2]]\<rparr>"
      "[1, 2]" "[]" "[9]"]
  by (auto simp: TCPMimic_new_def)

end
