(* ===== verification/Simulation.thy ===== *)
theory Simulation
  imports Network_Side File_IO_Testing Pcap_Trace_Testing TCP_Replay TCP_Compare
begin

text \<open>
  The simulation put together: the object behind \<open>DPITestingLib *sim_backend\<close>, the dispatch of
  its virtual functions, the initialisation \<open>init_network_side_state\<close> of
  \<^verbatim>\<open>src/sim_dpi/sim_network_side_queue.cpp\<close>, and the states that the simulator reaches by calling
  \<open>get_data\<close> and \<open>put_data\<close> in any order.
\<close>

section \<open>The backend object\<close>

datatype DPITestingLib =
    NoBackend
  | FileIO FileIOTestingLib
  | PcapTrace PcapTestingLib
  | TCPPcapTrace TCPPcapTestingLib

text \<open>The result of a member function with the object put back behind the pointer.\<close>

definition with_obj :: "('b \<Rightarrow> DPITestingLib) \<Rightarrow> ('a \<times> world \<times> 'b) res \<Rightarrow> ('a \<times> world \<times> DPITestingLib) res" where
  "with_obj C r = bindE r (\<lambda>(x, w, b). Inr (x, w, C b))"

definition virtual_get :: "DPITestingLib get_buf_fr_io" where
  "virtual_get env ss = (\<lambda>(w, d).
     case d of
       NoBackend \<Rightarrow> Inl OutOfBounds
     | FileIO b \<Rightarrow> with_obj FileIO (FileIO_get_buf_fr_io env ss (w, b))
     | PcapTrace b \<Rightarrow> with_obj PcapTrace (Pcap_get_buf_fr_io env ss (w, b))
     | TCPPcapTrace b \<Rightarrow> with_obj TCPPcapTrace (TCPPcap_get_buf_fr_io env ss (w, b)))"

definition virtual_put :: "DPITestingLib put_buf_on_io" where
  "virtual_put env ss pkt = (\<lambda>(w, d).
     case d of
       NoBackend \<Rightarrow> Inl OutOfBounds
     | FileIO b \<Rightarrow> with_obj FileIO (FileIO_put_buf_on_io env ss pkt (w, b))
     | PcapTrace b \<Rightarrow> with_obj PcapTrace (Pcap_put_buf_on_io env ss pkt (w, b))
     | TCPPcapTrace b \<Rightarrow> with_obj TCPPcapTrace (TCPPcap_put_buf_on_io env ss pkt (w, b)))"

definition backend_inv :: "DPITestingLib \<Rightarrow> bool" where
  "backend_inv d = (case d of TCPPcapTrace b \<Rightarrow> tcp_inv b | _ \<Rightarrow> True)"

text \<open>Dispatch meets the contract because every class does.\<close>

interpretation sim: dpi_backend virtual_get virtual_put backend_inv
proof unfold_locales
  fix ss env w d pkt w' d'
  assume g: "virtual_get env ss (w, d) = Inr (pkt, w', d')"
  show "drives w' = drives w" "backend_life w' = backend_life w"
    using g
    by (auto simp: virtual_get_def with_obj_def res_simps split: DPITestingLib.splits
        dest: file_io.get_drives pcap_trace.get_drives tcp_trace.get_drives
          file_io.get_life pcap_trace.get_life tcp_trace.get_life)
  assume "backend_inv d"
  with g show "backend_inv d'"
    by (auto simp: virtual_get_def with_obj_def res_simps backend_inv_def split: DPITestingLib.splits
        dest: tcp_trace.get_inv)
next
  fix ss env w d n w' d' and pkt :: mem
  assume p: "virtual_put env ss pkt (w, d) = Inr (n, w', d')"
  show "drives w' = drives w" "backend_life w' = backend_life w \<or> backend_life w' = Dead"
    "n \<le> int (length pkt) \<and> (length pkt < 2 ^ 31 \<longrightarrow> 0 \<le> n)"
    using p
    by (auto simp: virtual_put_def with_obj_def res_simps split: DPITestingLib.splits
        dest: file_io.put_drives pcap_trace.put_drives tcp_trace.put_drives
          file_io.put_life pcap_trace.put_life tcp_trace.put_life
          file_io.put_size pcap_trace.put_size tcp_trace.put_size)
  assume "backend_inv d"
  with p show "backend_inv d'"
    by (auto simp: virtual_put_def with_obj_def res_simps backend_inv_def split: DPITestingLib.splits
        dest: tcp_trace.put_inv)
qed

section \<open>Initialisation\<close>

definition RAW :: int where "RAW = 0"
definition FILE_IO :: int where "FILE_IO = 1"
definition PCAP_TRACE :: int where "PCAP_TRACE = 2"
definition BACKEND :: int where "BACKEND = PCAP_TRACE"

definition TRACE_FILE_PATH :: string where
  "TRACE_FILE_PATH = ''/homes/sys/katielim/beehive/tcp_apps/echo_app/build/tcp_pull_1_req_test.pcap''"

text \<open>\<open>inet_pton(AF_INET, "192.0.0.2", ...)\<close> stores the four numbers in this order.\<close>

definition our_s_addr :: u32 where
  "our_s_addr = word_of_bytes [192, 0, 0, 2]"

definition our_mac :: mem where
  "our_mac = [0x24, 0xbe, 0x05, 0xbf, 0x5b, 0x91]"

text \<open>
  \<open>backend_kind\<close> is the macro \<open>BACKEND\<close>. The new object is assigned to the global pointer after
  its constructor has returned; a former object is not deleted.
\<close>

definition init_network_side_state ::
  "int \<Rightarrow> fopen \<Rightarrow> world \<times> DPITestingLib network_side \<Rightarrow> (world \<times> DPITestingLib network_side) res" where
  "init_network_side_state backend_kind fopen = (\<lambda>(w, s).
     let ss = instance_state s;
         ss = ss\<lparr>source_addr := \<lparr>sin_family = AF_INET, sin_port = 1234, s_addr = our_s_addr\<rparr>,
                  source_mac_addr := our_mac, has_syn_acked := 0\<rparr>;
         s = s\<lparr>instance_state := ss,
                rx_data_if := (rx_data_if s)\<lparr>rx_buffer_pos := 0, rx_buffer_len := 0\<rparr>\<rparr>;
         w = emit (DriveRx False (replicate mac_bytes 0) False 0) w
     in
     bindE
       (if backend_kind = FILE_IO then
          bindE (FileIOTestingLib_new fopen ''hw_to_sw.txt'' ''sw_to_hw.txt'') (\<lambda>b.
          Inr ((say ''Using files backend'' [] w)\<lparr>backend_life := Alive\<rparr>, s\<lparr>sim_backend := FileIO b\<rparr>))
        else if backend_kind = PCAP_TRACE then
          bindE (TCPPcapTestingLib_new fopen TRACE_FILE_PATH
                   (say_str ''Using PCAP trace backend with file %s'' TRACE_FILE_PATH w)) (\<lambda>(w, b).
          Inr (w\<lparr>backend_life := Alive\<rparr>, s\<lparr>sim_backend := TCPPcapTrace b\<rparr>))
        else
          bindE (finish_simulation (say ''Invalid backend'' [] w)) (\<lambda>w. Inr (w, s)))
       (\<lambda>(w, s). Inr (say ''Initialized socket state'' [] w, s)))"

text \<open>The globals before initialisation: static storage is zeroed.\<close>

definition zeroed :: "DPITestingLib network_side" where
  "zeroed =
     \<lparr>instance_state = \<lparr>send_sock = 0, recv_sock = 0,
        source_addr = \<lparr>sin_family = 0, sin_port = 0, s_addr = 0\<rparr>,
        dest_addr = \<lparr>sin_family = 0, sin_port = 0, s_addr = 0\<rparr>,
        source_mac_addr = replicate 6 0, dest_mac_addr = replicate 6 0, has_syn_acked = 0, init_ack_num = 0\<rparr>,
      rx_data_if = \<lparr>rx_buffer = RxNull, rx_buffer_len = 0, rx_buffer_pos = 0\<rparr>,
      tx_data_if = \<lparr>tx_buffer_len = 0, tx_buffer_pos = 0, tx_buffer = []\<rparr>,
      sim_backend = NoBackend\<rparr>"

section \<open>Reachable states\<close>

inductive sim_reach :: "fopen \<Rightarrow> world \<times> DPITestingLib network_side \<Rightarrow> bool" for fopen where
  start: "init_network_side_state BACKEND fopen (\<lparr>backend_life = NullPtr, out = []\<rparr>, zeroed) = Inr c \<Longrightarrow>
    sim_reach fopen c"
| rx: "sim_reach fopen c \<Longrightarrow> sysenv_wf env \<Longrightarrow> get_data virtual_get virtual_put env c = Inr c' \<Longrightarrow>
    sim_reach fopen c'"
| tx: "sim_reach fopen c \<Longrightarrow> put_data virtual_put env v l p c = Inr c' \<Longrightarrow> sim_reach fopen c'"

definition sim_inv :: "world \<times> DPITestingLib network_side \<Rightarrow> bool" where
  "sim_inv = (\<lambda>(w, s). rx_inv (rx_data_if s) \<and> backend_inv (sim_backend s) \<and>
     sock_state_wf (instance_state s) \<and> source_mac_addr (instance_state s) = our_mac \<and>
     list_all drive_ok (drives w))"

lemma TCPPcapTestingLib_new_frame:
  assumes "TCPPcapTestingLib_new fopen name w = Inr (w', b)"
  shows "drives w' = drives w \<and> tcp_inv b"
  using assms
  by (auto simp: TCPPcapTestingLib_new_def Let_def res_simps tcp_inv_def split: option.splits prod.splits if_splits
      dest: finish_simulation_drives)

lemma init_inv:
  assumes "init_network_side_state BACKEND fopen (\<lparr>backend_life = NullPtr, out = []\<rparr>, zeroed) = Inr c"
  shows "sim_inv c"
  using assms drive_ok_idle
  by (auto simp: init_network_side_state_def BACKEND_def PCAP_TRACE_def FILE_IO_def Let_def res_simps
      sim_inv_def zeroed_def rx_inv_def backend_inv_def sock_state_wf_def our_mac_def
      drives_def [of "\<lparr>backend_life = NullPtr, out = []\<rparr>"] dest!: TCPPcapTestingLib_new_frame)

lemma sim_inv_rx:
  assumes "sim_inv (w, s)" "sysenv_wf env" and g: "get_data virtual_get virtual_put env (w, s) = Inr (w', s')"
  shows "sim_inv (w', s')"
proof -
  have i: "rx_inv (rx_data_if s)" "backend_inv (sim_backend s)" using assms(1) by (simp_all add: sim_inv_def)
  have rx: "rx_inv (rx_data_if s')"
    using get_data_rx_keeps [OF i(1) assms(2) g] .
  have "sock_state_wf (instance_state s') \<and> source_mac_addr (instance_state s') = our_mac"
    using sim.get_data_instance [OF i(1) assms(2) g] assms(1) by (simp add: sim_inv_def)
  with rx sim.get_data_drives_once [OF i(1) assms(2) g] i(2) assms(1) show ?thesis
    by (auto simp: sim_inv_def)
qed

text \<open>
  C9: in every state the simulator can reach, whatever files there are and in whatever order it
  calls \<open>get_data\<close> and \<open>put_data\<close>: the receive buffer is consistent, the flow table has one entry
  per flow, the host's address is the configured one, and every drive of the receive interface was
  well formed.
\<close>

theorem sim_reach_invariant:
  assumes "sim_reach fopen c"
  shows "sim_inv c"
  using assms
proof induction
  case (start c)
  then show ?case by (rule init_inv)
next
  case (rx c env c')
  then show ?case using sim_inv_rx [of "fst c" "snd c" env "fst c'" "snd c'"] by simp
next
  case (tx c env v l p c')
  then show ?case
    using sim.put_data_frame [of env v l p "fst c" "snd c" "fst c'" "snd c'"]
    by (auto simp: sim_inv_def split: prod.splits)
qed

theorem sim_reach_invariant_witness:
  "\<exists>c. init_network_side_state BACKEND (\<lambda>_ _. Some ex_file) (\<lparr>backend_life = NullPtr, out = []\<rparr>, zeroed) = Inr c \<and>
    sim_inv c"
proof -
  have "\<exists>c. init_network_side_state BACKEND (\<lambda>_ _. Some ex_file) (\<lparr>backend_life = NullPtr, out = []\<rparr>, zeroed) = Inr c"
    using consume_trace_file [OF ex_wf(3)]
    by (auto simp: init_network_side_state_def BACKEND_def FILE_IO_def PCAP_TRACE_def TCPPcapTestingLib_new_def Let_def)
  then obtain c where c: "init_network_side_state BACKEND (\<lambda>_ _. Some ex_file)
      (\<lparr>backend_life = NullPtr, out = []\<rparr>, zeroed) = Inr c" ..
  show ?thesis using sim_reach_invariant [OF sim_reach.start [OF c]] c by blast
qed

section \<open>After initialisation\<close>

text \<open>The socket state after initialisation.\<close>

definition booted_ss :: sock_state where
  "booted_ss = (instance_state zeroed)
     \<lparr>source_addr := \<lparr>sin_family = AF_INET, sin_port = 1234, s_addr = our_s_addr\<rparr>,
      source_mac_addr := our_mac, has_syn_acked := 0\<rparr>"

lemma booted_wf: "sock_state_wf booted_ss"
  by (simp add: booted_ss_def sock_state_wf_def zeroed_def our_mac_def)

lemma init_from_trace:
  assumes "fopen TRACE_FILE_PATH ''rb'' = Some f" "pcap_trace_file f ps" "good_trace booted_ss h ps"
  shows "\<exists>w s b. init_network_side_state BACKEND fopen (\<lparr>backend_life = NullPtr, out = []\<rparr>, zeroed) = Inr (w, s) \<and>
    backend_life w = Alive \<and> drives w = [DriveRx False (replicate 32 0) False 0] \<and>
    instance_state s = booted_ss \<and> sim_backend s = TCPPcapTrace b \<and> replays booted_ss h b (replay_start ps) \<and>
    rx_inv (rx_data_if s) \<and> \<not> delivering (rx_data_if s) \<and> mismatches w = [] \<and>
    tx_buffer (tx_data_if s) = []"
proof -
  let ?w = "say_str ''Using PCAP trace backend with file %s'' TRACE_FILE_PATH
    (emit (DriveRx False (replicate mac_bytes 0) False 0) \<lparr>backend_life = NullPtr, out = []\<rparr>)"
  obtain b where b: "TCPPcapTestingLib_new fopen TRACE_FILE_PATH ?w = Inr (?w, b)"
      "replays booted_ss h b (replay_start ps)"
    using new_replays [of fopen TRACE_FILE_PATH f ps booted_ss h ?w] assms by auto
  then show ?thesis
    by (auto simp: init_network_side_state_def BACKEND_def FILE_IO_def PCAP_TRACE_def Let_def booted_ss_def
        zeroed_def rx_inv_def delivering_def drives_def is_drive_def mismatches_def is_mismatch_def)
qed

end
