(* ===== verification/Delivery.thy ===== *)
theory Delivery
  imports Simulation
begin

text \<open>
  The receive direction of the whole simulation, from the trace to the pins: calls of \<open>get_data\<close>
  with the flow-aware backend behind the pointer. \<open>hw_recv\<close> is the hardware's reading of what is
  driven: it collects the bytes of valid beats, most significant first and without the padding,
  and has a frame when the last beat is marked.
\<close>

section \<open>The hardware's view\<close>

definition hw_step :: "mem list \<times> mem \<Rightarrow> event \<Rightarrow> mem list \<times> mem" where
  "hw_step = (\<lambda>(fs, acc) e.
     case e of
       DriveRx valid d last_beat padbytes \<Rightarrow>
         if valid then
           let bs = acc @ rev (drop (nat padbytes) d)
           in if last_beat then (fs @ [bs], []) else (fs, bs)
         else (fs, acc)
     | _ \<Rightarrow> (fs, acc))"

definition hw_recv :: "event list \<Rightarrow> mem list \<times> mem" where
  "hw_recv D = foldl hw_step ([], []) D"

lemma hw_recv_snoc [simp]: "hw_recv (D @ [e]) = hw_step (hw_recv D) e"
  by (simp add: hw_recv_def)

lemma hw_step_idle [simp]: "hw_step c (DriveRx False d l p) = c"
  by (cases c) (simp add: hw_step_def)

lemma hw_step_beat:
  "r \<noteq> [] \<Longrightarrow> hw_step (fs, acc) (beat r) =
    (if length r \<le> 32 then (fs @ [acc @ r], []) else (fs, acc @ take 32 r))"
  by (simp add: hw_step_def beat_def)

section \<open>Frames of a trace\<close>

definition frame_len :: "mem \<Rightarrow> nat" where
  "frame_len p = unat (ntohs (word_of_bytes (take 2 (drop 16 p)))) + 14"

definition clip :: "mem \<Rightarrow> mem" where
  "clip p = take (frame_len p) p"

text \<open>An IP frame that has the bytes its IP header announces, TCP header included.\<close>

definition wire_ok :: "mem \<Rightarrow> bool" where
  "wire_ok p \<longleftrightarrow> ntohs (word_of_bytes (take 2 (drop 12 p))) = ETHERTYPE_IP \<and>
     34 \<le> frame_len p \<and> tcp_at p + 20 \<le> frame_len p \<and> frame_len p \<le> length p \<and> length p \<le> 2048"

lemma wire_ok_frame: "wire_ok p \<Longrightarrow> ip_frame p (frame_len p)"
  by (simp add: wire_ok_def ip_frame_def frame_len_def)

lemma clip_key:
  assumes "wire_ok p"
  shows "for_us ss (clip p) = for_us ss p" "pkt_key ss (clip p) = pkt_key ss p" "clip p \<noteq> []"
    "length (clip p) = frame_len p" "length (clip p) \<le> 2048"
proof -
  have l: "length (clip p) = frame_len p" "34 \<le> frame_len p" "tcp_at p + 20 \<le> frame_len p" "frame_len p \<le> 2048"
    using assms by (simp_all add: wire_ok_def clip_def)
  then show "length (clip p) = frame_len p" "length (clip p) \<le> 2048" "clip p \<noteq> []" by auto
  have t: "tcp_at (clip p) = tcp_at p" using l by (simp add: tcp_at_def ihl_of_def clip_def)
  show f: "for_us ss (clip p) = for_us ss p" using l by (simp add: for_us_def clip_def min_def)
  have d: "take n (drop i (clip p)) = take n (drop i p)" if "i + n \<le> frame_len p" for i n
    using that by (simp add: clip_def drop_take min_def)
  show "pkt_key ss (clip p) = pkt_key ss p"
    using l by (simp add: pkt_key_def f t d)
qed

lemma sent_on_clip: "wire_ok p \<Longrightarrow> sent_on ss k [clip p] = map clip (sent_on ss k [p])"
  by (simp add: sent_on_def clip_key)

lemma sent_on_append [simp]: "sent_on ss k (xs @ ys) = sent_on ss k xs @ sent_on ss k ys"
  by (simp add: sent_on_def)

lemma sent_on_Nil [simp]: "sent_on ss k [] = []"
  by (simp add: sent_on_def)

section \<open>The invariant of delivery\<close>

text \<open>All packets that the replayer still has to hand out are such frames.\<close>

definition wires_ok :: "replay \<Rightarrow> bool" where
  "wires_ok a \<longleftrightarrow> (\<forall>p \<in> set (trace a). wire_ok p) \<and> (\<forall>k. \<forall>p \<in> set (held a k). wire_ok p)"

lemma wires_ok_step:
  assumes "replay_step ss a pkt a'" "wires_ok a" "replay_wf ss a"
  shows "wires_ok a' \<and> (pkt \<noteq> [] \<longrightarrow> wire_ok pkt \<and> for_us ss pkt)"
  using assms
proof (induction rule: replay_step.induct)
  case (release a k p ps)
  have "\<forall>q \<in> set (p # ps). wire_ok q" using release(2,3) unfolding wires_ok_def by metis
  moreover have "for_us ss p" using replay_wf_held [OF release(4), of p k] release(2) by simp
  ultimately show ?case using release(1,3) by (simp add: wires_ok_def)
qed (auto simp: wires_ok_def)

text \<open>The bytes that were fetched and not yet driven, as the frame they complete.\<close>

definition in_flight :: "mem \<Rightarrow> mem \<Rightarrow> mem list" where
  "in_flight acc r = (if r = [] then [] else [acc @ r])"

text \<open>
  What the hardware has received, with what is in flight, and what the replayer still has are
  together the frames of the trace, flow by flow.
\<close>

definition shown :: "sock_state \<Rightarrow> mem list \<Rightarrow> replay \<Rightarrow> mem list \<times> mem \<Rightarrow> mem \<Rightarrow> bool" where
  "shown ss ps a = (\<lambda>(fs, acc) r.
     (r = [] \<longrightarrow> acc = []) \<and> list_all (for_us ss) (fs @ in_flight acc r) \<and>
     (\<forall>k. sent_on ss k (fs @ in_flight acc r) @ map clip (pending ss a k) = map clip (sent_on ss k ps)))"

lemma shown_beat:
  assumes "shown ss ps a c r" "r \<noteq> []"
  shows "shown ss ps a (hw_step c (beat r)) (drop 32 r)"
proof -
  obtain fs acc where c: "c = (fs, acc)" by (cases c)
  have "fs @ in_flight acc r = (case hw_step c (beat r) of (fs', acc') \<Rightarrow> fs' @ in_flight acc' (drop 32 r))"
    using assms(2) by (simp add: c hw_step_beat in_flight_def)
  with assms show ?thesis by (auto simp: shown_def c hw_step_beat in_flight_def split: if_splits)
qed

lemma shown_step:
  assumes s: "shown ss ps a c []" and st: "replay_step ss a pkt a'" and wf: "replay_wf ss a" "wires_ok a"
  shows "shown ss ps a' c (if pkt = [] then [] else clip pkt)"
proof (cases "pkt = []")
  case True
  then have "pending ss a k = pending ss a' k" for k
    using replay_step_pending [OF st wf(1), of k] by (simp add: delivered_def)
  with s True show ?thesis by (simp add: shown_def split: prod.splits)
next
  case False
  have w: "wire_ok pkt" "for_us ss pkt" using wires_ok_step [OF st wf(2,1)] False by auto
  have "map clip (pending ss a k) = sent_on ss k [clip pkt] @ map clip (pending ss a' k)" for k
    using replay_step_pending [OF st wf(1), of k] False by (simp add: delivered_def sent_on_clip [OF w(1)])
  with s False w clip_key [OF w(1)] show ?thesis
    by (simp add: shown_def in_flight_def split: prod.splits)
qed

definition delivers ::
  "sock_state \<Rightarrow> nat \<Rightarrow> mem list \<Rightarrow> world \<times> DPITestingLib network_side \<Rightarrow> replay \<Rightarrow> bool" where
  "delivers ss h ps = (\<lambda>(w, s) a.
     rx_inv (rx_data_if s) \<and> instance_state s = ss \<and> backend_life w \<noteq> Dead \<and>
     (\<exists>b. sim_backend s = TCPPcapTrace b \<and> replays ss h b a) \<and> wires_ok a \<and>
     length (rx_rest (rx_data_if s)) \<le> 2048 \<and> shown ss ps a (hw_recv (drives w)) (rx_rest (rx_data_if s)))"

text \<open>How many calls are needed at most: the beats in flight, and for each step of the replayer one frame.\<close>

definition calls_left :: "DPITestingLib network_side \<Rightarrow> replay \<Rightarrow> nat" where
  "calls_left s a = (length (rx_rest (rx_data_if s)) + 31) div 32 + 65 * work a"

lemma beats_left:
  "0 < n \<Longrightarrow> (n - 32 + 31) div 32 = (n + 31) div 32 - (1 :: nat)" "(n + 31) div 32 = (0 :: nat) \<longleftrightarrow> n = 0"
  by linarith+

lemma delivers_beat:
  assumes d: "delivers ss h ps (w, s) a" and r: "delivering (rx_data_if s)" and e: "sysenv_wf env"
  shows "\<exists>w' s'. get_data_beat env (w, s) = Inr (w', s') \<and> delivers ss h ps (w', s') a \<and>
    length (rx_rest (rx_data_if s')) = length (rx_rest (rx_data_if s)) - 32"
proof -
  have inv: "rx_inv (rx_data_if s)" using d by (simp add: delivers_def)
  obtain w' rx' where 1: "get_data_beat env (w, s) = Inr (w', s\<lparr>rx_data_if := rx'\<rparr>)" "rx_inv rx'"
      "rx_rest rx' = drop 32 (rx_rest (rx_data_if s))" "drives w' = drives w @ [beat (rx_rest (rx_data_if s))]"
      "backend_life w' = backend_life w"
    using get_data_beat_spec [OF inv r e, of w] by auto
  have "rx_rest (rx_data_if s) \<noteq> []" using rx_rest_delivering [OF inv] r by simp
  then have "shown ss ps a (hw_recv (drives w')) (rx_rest rx')"
    using d shown_beat by (auto simp: 1(3,4) delivers_def)
  with 1 d show ?thesis by (auto simp: delivers_def)
qed

lemma fetch_wire:
  assumes w: "backend_life w \<noteq> Dead"
    and g: "virtual_get env (instance_state s) (w, sim_backend s) = Inr (pkt, w1, d)"
    and p: "pkt \<noteq> [] \<Longrightarrow> wire_ok pkt"
  obtains (empty) "pkt = []"
      "recv_from_socket virtual_get virtual_put env (w, s) = Inr (0, w1, s\<lparr>sim_backend := d\<rparr>)"
  | (frame) rx where "pkt \<noteq> []" "rx_inv rx" "delivering rx" "rx_rest rx = clip pkt" "0 < frame_len pkt"
      "recv_from_socket virtual_get virtual_put env (w, s) =
        Inr (int (frame_len pkt), say ''Buffer len: %d'' [int (frame_len pkt)] w1,
          s\<lparr>sim_backend := d, rx_data_if := rx\<rparr>)"
proof (cases "pkt = []")
  case True
  with g w show thesis by (intro empty) (simp_all add: recv_from_socket_def)
next
  case False
  then have p: "wire_ok pkt" using p by simp
  let ?rx = "\<lparr>rx_buffer = RxLive (clip pkt), rx_buffer_len = of_nat (frame_len pkt), rx_buffer_pos = 0\<rparr>"
  have fl: "frame_len pkt \<le> length pkt" "frame_len pkt \<le> 2048" "0 < frame_len pkt"
    using p by (simp_all add: wire_ok_def)
  then have l: "unat (of_nat (frame_len pkt) :: u64) = frame_len pkt" by (simp add: unat_of_nat)
  have "recv_from_socket virtual_get virtual_put env (w, s) =
        Inr (int (frame_len pkt), say ''Buffer len: %d'' [int (frame_len pkt)] w1,
          s\<lparr>sim_backend := d, rx_data_if := ?rx\<rparr>)"
    using recv_from_socket_ip [of w virtual_get env s pkt w1 d "frame_len pkt" virtual_put]
      g w wire_ok_frame [OF p] fl by (simp add: clip_def)
  moreover have "rx_inv ?rx" "delivering ?rx" "rx_rest ?rx = clip pkt"
    using l fl clip_key(4) [OF p] by (simp_all add: rx_inv_def delivering_def rx_rest_def word_less_nat_alt)
  ultimately show thesis using False fl by (intro frame)
qed

lemma delivers_fetch:
  assumes d: "delivers ss h ps (w, s) a" and r: "\<not> delivering (rx_data_if s)"
    and ss: "sock_state_wf ss" and e: "env_ok h env"
  obtains (quiet) w1 s1 a1 where "recv_from_socket virtual_get virtual_put env (w, s) = Inr (0, w1, s1)"
      "drives w1 = drives w" "delivers ss h ps (w1, s1) a1" "rx_rest (rx_data_if s1) = []"
      "work a1 < work a \<or> work a1 = 0"
  | (frame) n w1 s1 a1 where "recv_from_socket virtual_get virtual_put env (w, s) = Inr (n, w1, s1)" "n \<noteq> 0"
      "delivers ss h ps (w1, s1) a1" "delivering (rx_data_if s1)" "work a1 < work a"
proof -
  obtain b where b: "sim_backend s = TCPPcapTrace b" "replays ss h b a"
    and i: "instance_state s = ss" "backend_life w \<noteq> Dead" "rx_inv (rx_data_if s)" "wires_ok a"
    and sh: "shown ss ps a (hw_recv (drives w)) (rx_rest (rx_data_if s))"
    using d by (auto simp: delivers_def)
  have rest: "rx_rest (rx_data_if s) = []" using rx_rest_delivering [OF i(3)] r by simp
  have wf: "replay_wf ss a" using b(2) by (simp add: replays_def)
  obtain pkt w1 b1 a1 where 1: "TCPPcap_get_buf_fr_io env ss (w, b) = Inr (pkt, w1, b1)"
      "replay_step ss a pkt a1" "replays ss h b1 a1"
    using get_refines [OF b(2) e ss, of w] by blast
  have g: "virtual_get env (instance_state s) (w, sim_backend s) = Inr (pkt, w1, TCPPcapTrace b1)"
    using 1(1) b(1) i(1) by (simp add: virtual_get_def with_obj_def)
  have w1: "drives w1 = drives w" "backend_life w1 \<noteq> Dead"
    using sim.get_drives [OF g] sim.get_life [OF g] i(2) by simp_all
  note sh1 = shown_step [OF sh [unfolded rest] 1(2) wf i(4)]
  note wires = wires_ok_step [OF 1(2) i(4) wf]
  show ?thesis
  proof (rule fetch_wire [OF i(2) g])
    assume e: "pkt = []"
      "recv_from_socket virtual_get virtual_put env (w, s) = Inr (0, w1, s\<lparr>sim_backend := TCPPcapTrace b1\<rparr>)"
    have "delivers ss h ps (w1, s\<lparr>sim_backend := TCPPcapTrace b1\<rparr>) a1"
      using i w1 1(3) wires sh1 e(1) rest by (simp add: delivers_def)
    then show ?thesis using quiet [OF e(2)] w1(1) rest work_step [OF 1(2) wf] by auto
  next
    fix rx
    assume f: "pkt \<noteq> []" "rx_inv rx" "delivering rx" "rx_rest rx = clip pkt" "0 < frame_len pkt"
      "recv_from_socket virtual_get virtual_put env (w, s) =
        Inr (int (frame_len pkt), say ''Buffer len: %d'' [int (frame_len pkt)] w1,
          s\<lparr>sim_backend := TCPPcapTrace b1, rx_data_if := rx\<rparr>)"
    have "delivers ss h ps (say ''Buffer len: %d'' [int (frame_len pkt)] w1,
        s\<lparr>sim_backend := TCPPcapTrace b1, rx_data_if := rx\<rparr>) a1"
      using i w1 1(3) wires sh1 f(1-4) clip_key(5) [of pkt] by (simp add: delivers_def)
    moreover have "work a \<noteq> 0"
      using work_0 [OF wf] replay_step_pending [OF 1(2) wf, of "pkt_key ss pkt"] f(1) wires
      by (force simp: delivered_def sent_on_def)
    ultimately show ?thesis
      using frame [OF f(6)] f(3,5) work_step [OF 1(2) wf] by auto
  qed (use wires in simp)
qed

text \<open>Every call returns, keeps the invariant and brings the end closer.\<close>

lemma delivers_step:
  assumes d: "delivers ss h ps (w, s) a" and ss: "sock_state_wf ss" and e: "env_ok h env"
  shows "\<exists>w' s' a'. get_data virtual_get virtual_put env (w, s) = Inr (w', s') \<and>
    delivers ss h ps (w', s') a' \<and> calls_left s' a' \<le> calls_left s a - 1"
proof (cases "delivering (rx_data_if s)")
  case True
  have "rx_rest (rx_data_if s) \<noteq> []" using d rx_rest_delivering True by (auto simp: delivers_def)
  moreover obtain w' s' where "get_data_beat env (w, s) = Inr (w', s')" "delivers ss h ps (w', s') a"
      "length (rx_rest (rx_data_if s')) = length (rx_rest (rx_data_if s)) - 32"
    using delivers_beat [OF d True, of env] env_okD(1) [OF e] by auto
  ultimately show ?thesis using True beats_left(2) [of "length (rx_rest (rx_data_if s))"]
    by (intro exI [of _ w'] exI [of _ s'] exI [of _ a])
      (simp add: get_data_delivering calls_left_def beats_left(1) del: One_nat_def)
next
  case False
  show ?thesis
  proof (rule delivers_fetch [OF d False ss e])
    fix w1 s1 a1
    assume q: "recv_from_socket virtual_get virtual_put env (w, s) = Inr (0, w1, s1)" "drives w1 = drives w"
      "delivers ss h ps (w1, s1) a1" "rx_rest (rx_data_if s1) = []" "work a1 < work a \<or> work a1 = 0"
    let ?w = "emit (DriveRx False (replicate mac_bytes 0) False 0) w1"
    have "get_data virtual_get virtual_put env (w, s) = Inr (?w, s1)"
      using False q(1) by (simp add: get_data_def delivering_def not_less)
    moreover have "delivers ss h ps (?w, s1) a1" using q(3) by (simp add: delivers_def)
    moreover have "calls_left s1 a1 \<le> calls_left s a - 1" using q(4,5) by (auto simp: calls_left_def)
    ultimately show ?thesis by blast
  next
    fix n w1 s1 a1
    assume f: "recv_from_socket virtual_get virtual_put env (w, s) = Inr (n, w1, s1)" "n \<noteq> 0"
      "delivers ss h ps (w1, s1) a1" "delivering (rx_data_if s1)" "work a1 < work a"
    obtain w' s' where 1: "get_data_beat env (w1, s1) = Inr (w', s')" "delivers ss h ps (w', s') a1"
        "length (rx_rest (rx_data_if s')) = length (rx_rest (rx_data_if s1)) - 32"
      using delivers_beat [OF f(3,4), of env] env_okD(1) [OF e] by auto
    have "get_data virtual_get virtual_put env (w, s) = Inr (w', s')"
      using False f(1,2) 1(1) by (simp add: get_data_def delivering_def not_less)
    moreover have "calls_left s' a1 \<le> calls_left s a - 1"
    proof -
      have "length (rx_rest (rx_data_if s')) \<le> 2016" using 1(3) f(3) by (auto simp: delivers_def)
      then have "(length (rx_rest (rx_data_if s')) + 31) div 32 \<le> 63" by simp
      then show ?thesis using f(5) by (simp add: calls_left_def)
    qed
    ultimately show ?thesis using 1(2) by blast
  qed
qed

lemma delivers_run:
  assumes ss: "sock_state_wf ss"
  shows "delivers ss h ps (w, s) a \<Longrightarrow> list_all (env_ok h) envs \<Longrightarrow>
    \<exists>w' s' a'. get_datas virtual_get virtual_put envs (w, s) = Inr (w', s') \<and>
      delivers ss h ps (w', s') a' \<and> calls_left s' a' \<le> calls_left s a - length envs"
proof (induction envs arbitrary: w s a)
  case Nil
  then show ?case by auto
next
  case (Cons env envs)
  then obtain w1 s1 a1 where 1: "get_data virtual_get virtual_put env (w, s) = Inr (w1, s1)"
      "delivers ss h ps (w1, s1) a1" "calls_left s1 a1 \<le> calls_left s a - 1"
    using delivers_step [OF _ ss, of h ps w s a env] by auto
  from Cons.IH [OF 1(2)] Cons.prems(2) 1(1,3) show ?case by fastforce
qed

lemma delivers_done:
  assumes "delivers ss h ps (w, s) a" "calls_left s a = 0"
  shows "\<exists>fs. hw_recv (drives w) = (fs, []) \<and> list_all (for_us ss) fs \<and>
    (\<forall>k. sent_on ss k fs = map clip (sent_on ss k ps))"
proof -
  obtain fs acc where h: "hw_recv (drives w) = (fs, acc)" by force
  have "rx_rest (rx_data_if s) = []" "work a = 0"
    using assms(2) by (simp_all add: calls_left_def beats_left(2))
  moreover have "pending ss a k = []" for k
    using work_0 [of ss a k] \<open>work a = 0\<close> assms(1) by (auto simp: delivers_def replays_def)
  ultimately show ?thesis using assms(1) h by (simp add: delivers_def shown_def in_flight_def)
qed

end
