(* ===== verification/TCP_Check.thy ===== *)
theory TCP_Check
  imports TCP_Replay TCP_Compare "HOL-Library.Multiset"
begin

text \<open>
  What the flow-aware backend of \<^verbatim>\<open>src/sim_dpi/tcp_pcap_trace_testing_lib.cpp\<close> checks over a whole
  run, all flows together: a run of requests and packets of the hardware is projected to each flow
  (\<open>flow_ops\<close>), and the reports of the run are those that the projections deserve, no more and no
  less.
\<close>

section \<open>The run as one flow sees it\<close>

text \<open>
  A request reads the next packet of the trace, which makes its flow known; if the packet is one
  the hardware should send, it is a reference packet of its flow. A packet of the hardware is
  checked if its flow is known by then, and ignored otherwise.
\<close>

fun flow_ops :: "sock_state \<Rightarrow> TCPFlowTuple \<Rightarrow> bool \<Rightarrow> mem list \<Rightarrow> io_op list \<Rightarrow> flow_op list" where
  "flow_ops ss k seen ps [] = []"
| "flow_ops ss k seen [] (GetOp env # ops) = flow_ops ss k seen [] ops"
| "flow_ops ss k seen (p # ps) (GetOp env # ops) =
     (if pkt_key ss p = k
      then (if for_us ss p then [] else [Ref p]) @ flow_ops ss k True ps ops
      else flow_ops ss k seen ps ops)"
| "flow_ops ss k seen ps (PutOp env pkt # ops) =
     (if seen \<and> pkt_key ss pkt = k then Test pkt # flow_ops ss k seen ps ops
      else flow_ops ss k seen ps ops)"

lemma refs_of_append [simp]: "refs_of (xs @ ys) = refs_of xs @ refs_of ys"
  by (induction xs rule: refs_of.induct) auto

lemma tests_of_append [simp]: "tests_of (xs @ ys) = tests_of xs @ tests_of ys"
  by (induction xs rule: tests_of.induct) auto

lemma ends_with_test_snoc [simp]:
  "ends_with_test (H @ [Test p])" "\<not> ends_with_test (H @ [Ref p])"
  by (simp_all add: ends_with_test_def)

definition pairs_of :: "flow_op list \<Rightarrow> (mem \<times> mem) list" where
  "pairs_of H = zip (refs_of H) (tests_of H)"

section \<open>The queues of a flow\<close>

definition refs_q :: "TCPPcapTestingLib \<Rightarrow> TCPFlowTuple \<Rightarrow> mem list" where
  "refs_q b k = (case map_of (tcp_flows b) k of None \<Rightarrow> [] | Some c \<Rightarrow> pkts_to_recv c)"

definition tests_q :: "TCPPcapTestingLib \<Rightarrow> TCPFlowTuple \<Rightarrow> mem list" where
  "tests_q b k = (case map_of (tcp_flows b) k of None \<Rightarrow> [] | Some c \<Rightarrow> pkts_recved_buf c)"

text \<open>The step of a flow's history that a request makes.\<close>

definition read_ref :: "sock_state \<Rightarrow> mem list \<Rightarrow> TCPFlowTuple \<Rightarrow> mem list" where
  "read_ref ss ps k =
     (case ps of [] \<Rightarrow> [] | p # _ \<Rightarrow> if pkt_key ss p = k \<and> \<not> for_us ss p then [p] else [])"

lemma queues_upd:
  assumes "map_of (tcp_flows b') = (map_of (tcp_flows b))(k \<mapsto> c)"
  shows "refs_q b' = (refs_q b)(k := pkts_to_recv c)" "tests_q b' = (tests_q b)(k := pkts_recved_buf c)"
  by (simp_all add: refs_q_def tests_q_def assms fun_eq_iff)

lemma read_pcap_record_mismatches:
  assumes "read_pcap_record f buffer w = Inr (n, buffer', f', w')"
  shows "mismatches w' = mismatches w"
  using assms by (auto simp: read_pcap_record_def Let_def split: prod.splits if_splits)

lemma get_mismatches:
  assumes "TCPPcap_get_buf_fr_io env ss (w, b) = Inr (pkt, w', b')"
  shows "mismatches w' = mismatches w"
  using assms by (cases rule: TCPPcap_getE) (auto dest!: read_pcap_record_mismatches)

lemma get_new_queues:
  assumes "get_new sp k p b = Inr (pkt, b')" "map_of (tcp_flows b) k = None"
  shows "refs_q b' = (refs_q b)(k := refs_q b k @ (if sp then [] else [p])) \<and> tests_q b' = tests_q b"
proof -
  obtain c where b': "tcp_flows b' = tcp_flows b @ [(k, c)]" and
    c: "pkts_to_recv c = (if sp then [] else [p])" "pkts_recved_buf c = []"
    using assms(1)
    by (auto simp: get_new_def Let_def res_simps TCPMimic_new_def put_pkts_to_recv_back_def
        buf_process_helper_frame split: if_splits)
  have "map_of (tcp_flows b') = (map_of (tcp_flows b))(k \<mapsto> c)" using map_of_snoc [OF assms(2)] b' by simp
  from queues_upd [OF this] c assms(2) show ?thesis by (auto simp: refs_q_def tests_q_def fun_eq_iff)
qed

lemma get_existing_queues:
  assumes "get_existing sp k c p b = Inr (pkt, b')" "map_of (tcp_flows b) k = Some c" "\<not> handshake_done c"
  shows "refs_q b' = (refs_q b)(k := refs_q b k @ (if sp then [] else [p])) \<and> tests_q b' = tests_q b"
proof -
  obtain c' where b': "tcp_flows b' = AList.update k c' (tcp_flows b)" and
    c: "pkts_to_recv c' = pkts_to_recv c @ (if sp then [] else [p])" "pkts_recved_buf c' = pkts_recved_buf c"
    using assms(1,3)
    by (auto simp: get_existing_def Let_def get_handshake_done_def put_pkts_to_recv_back_def
        put_pkts_to_send_back_def split: if_splits)
  have "map_of (tcp_flows b') = (map_of (tcp_flows b))(k \<mapsto> c')" using b' by (simp add: update_conv')
  from queues_upd [OF this] c assms(2) show ?thesis by (auto simp: refs_q_def tests_q_def fun_eq_iff)
qed

lemma drain_queues:
  assumes "drain keys b = Inr (pkt, b')"
  shows "refs_q b' = refs_q b \<and> tests_q b' = tests_q b"
  using assms
proof (cases rule: drain_cases)
  case (release k c ps c')
  have "map_of (tcp_flows b') = (map_of (tcp_flows b))(k \<mapsto> c')" using release(5) by (simp add: update_conv')
  from queues_upd [OF this] buf_process_helper_frame [OF release(4)] release(2)
  show ?thesis by (auto simp: refs_q_def tests_q_def fun_eq_iff)
qed simp

lemma get_queues:
  assumes r: "replays ss h b a" and e: "env_ok h env" "sock_state_wf ss"
    and g: "TCPPcap_get_buf_fr_io env ss (w, b) = Inr (pkt, w', b')"
  shows "refs_q b' = (\<lambda>k. refs_q b k @ read_ref ss (trace a) k) \<and> tests_q b' = tests_q b"
proof (cases "trace a")
  case Nil
  have "\<exists>f. read_pcap_record (pcap_file b) (stack_garbage env) w = Inr (0, stack_garbage env, f, w)"
    using r Nil read_held_nothing [of "pcap_file b" "stack_garbage env" w] by (auto simp: replays_def)
  with g obtain f where "drain (key_order env (map fst (tcp_flows b))) (b\<lparr>pcap_file := f\<rparr>) = Inr (pkt, b')"
    by (cases rule: TCPPcap_getE) auto
  from drain_queues [OF this] show ?thesis by (simp add: read_ref_def Nil refs_q_def tests_q_def fun_eq_iff)
next
  case (Cons p ps)
  let ?k = "pkt_key ss p"
  let ?c = "\<lambda>f. case map_of (tcp_flows b) ?k of
       Some c \<Rightarrow> get_existing (for_us ss p) ?k c p (b\<lparr>pcap_file := f\<rparr>)
     | None \<Rightarrow> get_new (for_us ss p) ?k p (b\<lparr>pcap_file := f\<rparr>)"
  obtain f w1 where "TCPPcap_get_buf_fr_io env ss (w, b) = bindE (?c f) (\<lambda>(pkt, b). Inr (pkt, w1, b))"
    using get_record [OF r e Cons, of w] by blast
  with g have "bindE (?c f) (\<lambda>(pkt, b). Inr (pkt, w1, b)) = Inr (pkt, w', b')" by (simp only:)
  then have c: "?c f = Inr (pkt, b')" by (auto simp: bindE_eq_Inr)
  have "refs_q b' = (refs_q b)(?k := refs_q b ?k @ (if for_us ss p then [] else [p])) \<and> tests_q b' = tests_q b"
  proof (cases "map_of (tcp_flows b) ?k")
    case None
    with c get_new_queues [of "for_us ss p" ?k p "b\<lparr>pcap_file := f\<rparr>" pkt b'] show ?thesis
      by (simp add: refs_q_def tests_q_def fun_eq_iff)
  next
    case (Some d)
    have "\<not> handshake_done d" using r tcp_inv_flow [OF _ Some] by (simp add: replays_def)
    with Some c get_existing_queues [of "for_us ss p" ?k d p "b\<lparr>pcap_file := f\<rparr>" pkt b'] show ?thesis
      by (simp add: refs_q_def tests_q_def fun_eq_iff)
  qed
  then show ?thesis by (auto simp: read_ref_def Cons fun_eq_iff)
qed

section \<open>The checking invariant\<close>

text \<open>
  After the history \<open>H\<close> of every flow: the first \<open>n k\<close> pairs of flow \<open>k\<close> have been compared, the
  rest of its packets are queued, all pairs are compared when the flow's last packet came from the
  hardware, and the reports are those of the compared pairs. \<open>K\<close> is a finite set of flows that
  covers the flow table.
\<close>

definition checked ::
  "TCPFlowTuple set \<Rightarrow> TCPPcapTestingLib \<Rightarrow> world \<Rightarrow> event multiset \<Rightarrow>
   (TCPFlowTuple \<Rightarrow> flow_op list) \<Rightarrow> (TCPFlowTuple \<Rightarrow> nat) \<Rightarrow> bool" where
  "checked K b w M H n \<longleftrightarrow> finite K \<and>
     (\<forall>k. n k \<le> length (pairs_of (H k)) \<and>
          refs_q b k = drop (n k) (refs_of (H k)) \<and> tests_q b k = drop (n k) (tests_of (H k)) \<and>
          (ends_with_test (H k) \<longrightarrow> n k = length (pairs_of (H k)))) \<and>
     mset (mismatches w) = M + (\<Sum>k \<in> K. mset (reports (take (n k) (pairs_of (H k)))))"

lemma checkedD:
  assumes "checked K b w M H n"
  shows "finite K" "n k \<le> length (pairs_of (H k))" "refs_q b k = drop (n k) (refs_of (H k))"
    "tests_q b k = drop (n k) (tests_of (H k))"
    "ends_with_test (H k) \<Longrightarrow> n k = length (pairs_of (H k))"
    "mset (mismatches w) = M + (\<Sum>k \<in> K. mset (reports (take (n k) (pairs_of (H k)))))"
  using assms unfolding checked_def by blast+

lemma take_pairs_of: "take (length (pairs_of H)) (pairs_of (H @ H')) = pairs_of H"
  unfolding pairs_of_def refs_of_append tests_of_append length_zip by (rule zip_prefixes [symmetric])

lemma take_pairs_of_append: "m \<le> length (pairs_of H) \<Longrightarrow> take m (pairs_of (H @ H')) = take m (pairs_of H)"
  using arg_cong [OF take_pairs_of [of H H'], of "take m"] by (simp add: min_absorb1)

lemma same_sizes_prefix: "same_sizes (pairs_of (H @ H')) \<Longrightarrow> same_sizes (pairs_of H)"
  using same_sizes_take [of "pairs_of (H @ H')" "length (pairs_of H)"] by (simp add: take_pairs_of)

text \<open>A request leaves the compared pairs as they are.\<close>

lemma checked_get:
  assumes c: "checked K b w M H n"
    and b': "refs_q b' = (\<lambda>k. refs_q b k @ read_ref ss ps k)" "tests_q b' = tests_q b"
    and w': "mismatches w' = mismatches w"
  shows "checked K b' w' M (\<lambda>k. H k @ map Ref (read_ref ss ps k)) n"
proof -
  have R: "refs_of (map Ref xs) = xs" "tests_of (map Ref xs) = []" for xs by (induction xs) auto
  have "n k \<le> length (pairs_of (H k @ H'))" for k H'
    using checkedD(2) [OF c, of k] by (simp add: pairs_of_def)
  moreover have "n k \<le> length (refs_of (H k))" for k
    using checkedD(2) [OF c, of k] by (simp add: pairs_of_def)
  moreover have "ends_with_test (H k @ map Ref (read_ref ss ps k)) \<Longrightarrow>
      n k = length (pairs_of (H k @ map Ref (read_ref ss ps k)))" for k
    using checkedD(5) [OF c, of k] by (auto simp: read_ref_def split: list.splits if_splits)
  ultimately show ?thesis
    using checkedD [OF c] b' w' unfolding checked_def
    by (auto simp: R take_pairs_of_append)
qed

text \<open>A packet of the hardware on a flow of the table completes the comparison of that flow.\<close>

lemma checked_put:
  assumes c: "checked K b w M H n" and alive: "backend_life w = Alive"
    and k: "map_of (tcp_flows b) k = Some d" "k \<in> K" and s: "same_sizes (pairs_of (H k @ [Test p]))"
  shows "\<exists>w' d'. put_on_flow p d w = Inr (w', d') \<and> backend_life w' = Alive \<and>
    checked K (b\<lparr>tcp_flows := AList.update k d' (tcp_flows b)\<rparr>) w' M (H(k := H k @ [Test p]))
      (n(k := length (pairs_of (H k @ [Test p]))))"
proof -
  let ?H = "H k @ [Test p]" let ?Z = "pairs_of ?H" and ?R = "refs_of (H k)" and ?T = "tests_of ?H"
  note n = checkedD(2) [OF c, of k]
  have q: "pkts_to_recv d = drop (n k) ?R" "pkts_recved_buf d @ [p] = drop (n k) ?T"
    using checkedD(3,4) [OF c, of k] k(1) n by (simp_all add: refs_q_def tests_q_def pairs_of_def)
  then have z: "zip (pkts_to_recv d) (pkts_recved_buf d @ [p]) = drop (n k) ?Z"
    by (simp add: pairs_of_def drop_zip)
  have "same_sizes (zip (pkts_to_recv d) (pkts_recved_buf d @ [p]))"
    unfolding z by (rule same_sizes_drop [OF s])
  from put_on_flow_spec [OF alive this refl] obtain w' d' where
    1: "put_on_flow p d w = Inr (w', d')" "backend_life w' = Alive"
      "pkts_to_recv d' = drop (length (drop (n k) ?Z)) (pkts_to_recv d)"
      "pkts_recved_buf d' = drop (length (drop (n k) ?Z)) (pkts_recved_buf d @ [p])"
      "mismatches w' = mismatches w @ reports (drop (n k) ?Z)"
    unfolding z [symmetric] by auto
  have le: "n k \<le> length ?Z" using n by (simp add: pairs_of_def)
  then have "length (drop (n k) ?Z) + n k = length ?Z" by simp
  then have 2: "pkts_to_recv d' = drop (length ?Z) ?R" "pkts_recved_buf d' = drop (length ?Z) ?T"
    unfolding 1(3,4) q drop_drop by (simp_all only:)
  let ?b = "b\<lparr>tcp_flows := AList.update k d' (tcp_flows b)\<rparr>" and ?n = "n(k := length ?Z)"
  have m: "map_of (tcp_flows ?b) = (map_of (tcp_flows b))(k \<mapsto> d')" by (simp add: update_conv')
  let ?S = "\<lambda>n H. \<Sum>k \<in> K. mset (reports (take (n k) (pairs_of (H k))))"
  have "?S ?n (H(k := ?H)) = ?S n H + mset (reports (drop (n k) ?Z))"
  proof -
    have "reports ?Z = reports (take (n k) (pairs_of (H k))) @ reports (drop (n k) ?Z)"
      using take_pairs_of_append [OF n, of "[Test p]"] by (metis append_take_drop_id reports_append)
    then show ?thesis
      using checkedD(1) [OF c] k(2) by (simp add: sum.remove [of K k])
  qed
  then have "checked K ?b w' M (H(k := ?H)) ?n"
    using checkedD [OF c] queues_upd [OF m] 1(5) 2 unfolding checked_def by (auto simp: ac_simps)
  with 1(1,2) show ?thesis by blast
qed

section \<open>Runs\<close>

lemma put_known:
  assumes "pkt_ok p" "sock_state_wf ss"
  shows "TCPPcap_put_buf_on_io env ss p (w, b) =
    (case map_of (tcp_flows b) (pkt_key ss p) of
       None \<Rightarrow> Inr (int_of_size (length p), w, b)
     | Some d \<Rightarrow> bindE (put_on_flow p d w) (\<lambda>(w, d).
         Inr (int_of_size (length p), w, b\<lparr>tcp_flows := AList.update (pkt_key ss p) d (tcp_flows b)\<rparr>)))"
proof -
  have "load (Suc 0) p 14 = Inr (p ! 14)" using assms(1) by (intro load_byte) (simp add: pkt_ok_def)
  then show ?thesis
    using is_our_mac_pkt [OF assms, of "[]"] lookup_tuple_of_pkt [OF assms(1), of "[]" ss]
    by (simp add: TCPPcap_put_buf_on_io_def Let_def tcp_at_def ihl_of_def cong: option.case_cong)
qed

definition io_ok :: "nat \<Rightarrow> io_op \<Rightarrow> bool" where
  "io_ok h op = (case op of GetOp env \<Rightarrow> env_ok h env | PutOp _ p \<Rightarrow> pkt_ok p)"

lemma list_all_io_ok:
  "list_all (io_ok h) ops \<longleftrightarrow> list_all host_ok (get_envs ops) \<and>
     list_all (\<lambda>env. stack_ihl env = h) (get_envs ops) \<and> list_all pkt_ok (put_pkts ops)"
proof (induction ops)
  case (Cons op ops)
  then show ?case by (cases op) (auto simp: io_ok_def env_ok_def)
qed simp

lemma replay_step_trace:
  "replay_step ss a pkt a' \<Longrightarrow>
   (case trace a of [] \<Rightarrow> trace a' = [] \<and> known a' = known a
    | p # ps \<Rightarrow> trace a' = ps \<and> known a' = insert (pkt_key ss p) (known a))"
  by (auto elim!: replay_stepE)

lemma flow_ops_get:
  assumes "replay_step ss a pkt a'"
  shows "flow_ops ss k (k \<in> known a) (trace a) (GetOp env # ops) =
    map Ref (read_ref ss (trace a) k) @ flow_ops ss k (k \<in> known a') (trace a') ops"
  using replay_step_trace [OF assms] by (cases "trace a") (auto simp: read_ref_def)

text \<open>What one call does to the backend, the abstract replayer and the checking invariant.\<close>

lemma get_step:
  assumes ss: "sock_state_wf ss" and r: "replays ss h b a" and c: "checked K b w M H n"
    and w: "backend_life w = Alive" and e: "env_ok h env" and K: "known a \<union> pkt_key ss ` set (trace a) \<subseteq> K"
  obtains pkt w1 b1 a1 where "TCPPcap_get_buf_fr_io env ss (w, b) = Inr (pkt, w1, b1)"
    "replay_step ss a pkt a1" "replays ss h b1 a1" "backend_life w1 = Alive"
    "known a1 \<union> pkt_key ss ` set (trace a1) \<subseteq> K"
    "checked K b1 w1 M (\<lambda>k. H k @ map Ref (read_ref ss (trace a) k)) n"
proof -
  obtain pkt w1 b1 a1 where
    1: "TCPPcap_get_buf_fr_io env ss (w, b) = Inr (pkt, w1, b1)" "replay_step ss a pkt a1" "replays ss h b1 a1"
    using get_refines [OF r e ss, of w] by blast
  have "checked K b1 w1 M (\<lambda>k. H k @ map Ref (read_ref ss (trace a) k)) n"
    using get_queues [OF r e ss 1(1)] get_mismatches [OF 1(1)] by (intro checked_get [OF c]) auto
  moreover have "backend_life w1 = Alive" using tcp_trace.get_life [OF 1(1)] w by simp
  moreover have "known a1 \<union> pkt_key ss ` set (trace a1) \<subseteq> K"
    using replay_step_trace [OF 1(2)] K by (cases "trace a") auto
  ultimately show ?thesis using 1 by (intro that)
qed

definition put_test :: "sock_state \<Rightarrow> replay \<Rightarrow> mem \<Rightarrow> TCPFlowTuple \<Rightarrow> flow_op list" where
  "put_test ss a p k = (if k \<in> known a \<and> pkt_key ss p = k then [Test p] else [])"

lemma put_step:
  assumes ss: "sock_state_wf ss" and r: "replays ss h b a" and c: "checked K b w M H n"
    and w: "backend_life w = Alive" and p: "pkt_ok p" and K: "known a \<subseteq> K"
    and s: "same_sizes (pairs_of (H (pkt_key ss p) @ put_test ss a p (pkt_key ss p)))"
  obtains m w1 b1 n1 where "TCPPcap_put_buf_on_io env ss p (w, b) = Inr (m, w1, b1)" "replays ss h b1 a"
    "backend_life w1 = Alive" "checked K b1 w1 M (\<lambda>k. H k @ put_test ss a p k) n1"
proof -
  let ?k = "pkt_key ss p"
  have dom: "known a = dom (map_of (tcp_flows b))" using r by (simp add: replays_def)
  show ?thesis
  proof (cases "map_of (tcp_flows b) ?k")
    case None
    then have "put_test ss a p k = []" for k using dom by (auto simp: put_test_def)
    then show ?thesis
      by (intro that [of "int_of_size (length p)" w b n]) (use put_known [OF p ss] None r w c in simp_all)
  next
    case (Some d)
    then have k: "?k \<in> known a" "?k \<in> K" using dom K by auto
    then have H: "(\<lambda>k. H k @ put_test ss a p k) = H(?k := H ?k @ [Test p])"
      by (auto simp: put_test_def fun_eq_iff)
    have "same_sizes (pairs_of (H ?k @ [Test p]))" using s k by (simp add: put_test_def)
    from checked_put [OF c w Some k(2) this] obtain w1 d1 n1 where
      1: "put_on_flow p d w = Inr (w1, d1)" "backend_life w1 = Alive"
        "checked K (b\<lparr>tcp_flows := AList.update ?k d1 (tcp_flows b)\<rparr>) w1 M (\<lambda>k. H k @ put_test ss a p k) n1"
      unfolding H by blast
    have g: "TCPPcap_put_buf_on_io env ss p (w, b) =
        Inr (int_of_size (length p), w1, b\<lparr>tcp_flows := AList.update ?k d1 (tcp_flows b)\<rparr>)"
      using put_known [OF p ss] Some 1(1) by simp
    from that [OF g put_refines [OF r g] 1(2,3)] show ?thesis .
  qed
qed

lemma run_checked:
  assumes ss: "sock_state_wf ss"
  shows "replays ss h b a \<Longrightarrow> checked K b w M H n \<Longrightarrow> backend_life w = Alive \<Longrightarrow> list_all (io_ok h) ops \<Longrightarrow>
    known a \<union> pkt_key ss ` set (trace a) \<subseteq> K \<Longrightarrow>
    (\<And>k. same_sizes (pairs_of (H k @ flow_ops ss k (k \<in> known a) (trace a) ops))) \<Longrightarrow>
    \<exists>outs w' b' n'. backend_run ss ops (w, b) = Inr (outs, w', b') \<and> backend_life w' = Alive \<and>
      checked K b' w' M (\<lambda>k. H k @ flow_ops ss k (k \<in> known a) (trace a) ops) n'"
proof (induction ops arbitrary: w b a H n)
  case Nil
  then show ?case by auto
next
  case (Cons op ops)
  show ?case
  proof (cases op)
    case (GetOp env)
    then have e: "env_ok h env" using Cons.prems(4) by (simp add: io_ok_def)
    obtain pkt w1 b1 a1 where
      1: "TCPPcap_get_buf_fr_io env ss (w, b) = Inr (pkt, w1, b1)" "replay_step ss a pkt a1"
        "replays ss h b1 a1" "backend_life w1 = Alive" "known a1 \<union> pkt_key ss ` set (trace a1) \<subseteq> K"
        "checked K b1 w1 M (\<lambda>k. H k @ map Ref (read_ref ss (trace a) k)) n"
      using get_step [OF ss Cons.prems(1-3) e Cons.prems(5)] by blast
    show ?thesis
      using Cons.IH [OF 1(3,6,4) _ 1(5)] Cons.prems(3,4,6) 1(1) GetOp flow_ops_get [OF 1(2)] by auto
  next
    case (PutOp env p)
    then have p: "pkt_ok p" and K: "known a \<subseteq> K" using Cons.prems(4,5) by (simp_all add: io_ok_def)
    have fo: "H k @ flow_ops ss k (k \<in> known a) (trace a) (op # ops) =
        (H k @ put_test ss a p k) @ flow_ops ss k (k \<in> known a) (trace a) ops" for k
      by (simp add: PutOp put_test_def)
    have "same_sizes (pairs_of (H (pkt_key ss p) @ put_test ss a p (pkt_key ss p)))"
      using Cons.prems(6) [of "pkt_key ss p"] unfolding fo by (rule same_sizes_prefix)
    from put_step [OF ss Cons.prems(1-3) p K this] obtain m w1 b1 n1 where
      1: "TCPPcap_put_buf_on_io env ss p (w, b) = Inr (m, w1, b1)" "replays ss h b1 a"
        "backend_life w1 = Alive" "checked K b1 w1 M (\<lambda>k. H k @ put_test ss a p k) n1"
      by blast
    show ?thesis
      using Cons.IH [OF 1(2,4,3) _ Cons.prems(5)] Cons.prems(3,4,6) 1(1) PutOp unfolding fo by auto
  qed
qed

lemma flow_ops_unknown: "k \<notin> pkt_key ss ` set ps \<Longrightarrow> flow_ops ss k False ps ops = []"
  by (induction ss k False ps ops rule: flow_ops.induct) auto

lemma new_checked:
  "replays ss h b (replay_start ps) \<Longrightarrow> finite K \<Longrightarrow>
   checked K b w (mset (mismatches w)) (\<lambda>_. []) (\<lambda>_. 0)"
proof -
  assume r: "replays ss h b (replay_start ps)" and K: "finite K"
  have "map_of (tcp_flows b) k = None" for k
    using r by (auto simp: replays_def replay_start_def dom_def)
  with K show ?thesis
    by (simp add: checked_def refs_q_def tests_q_def pairs_of_def ends_with_test_def)
qed

text \<open>Nothing is reported exactly when all compared pairs are equal.\<close>

lemma checked_reports_iff:
  assumes c: "checked (pkt_key ss ` set ps) b w M (\<lambda>k. flow_ops ss k False ps ops) n"
    and s: "\<And>k. same_sizes (pairs_of (flow_ops ss k False ps ops))"
  shows "mset (mismatches w) = M \<longleftrightarrow>
    (\<forall>k. \<forall>(r, t) \<in> set (take (n k) (pairs_of (flow_ops ss k False ps ops))). r = t)"
proof -
  let ?K = "pkt_key ss ` set ps" and ?P = "\<lambda>k. pairs_of (flow_ops ss k False ps ops)"
  have e: "reports (take (n k) (?P k)) = [] \<longleftrightarrow> (\<forall>(r, t) \<in> set (take (n k) (?P k)). r = t)" for k
    using reports_empty_iff [OF same_sizes_take [OF s]] .
  have z: "reports (take (n k) (?P k)) = []" if "k \<notin> ?K" for k
    using flow_ops_unknown [OF that] by (simp add: pairs_of_def)
  have "mset (mismatches w) = M \<longleftrightarrow> (\<forall>k \<in> ?K. reports (take (n k) (?P k)) = [])"
    using checkedD(1,6) [OF c] by (simp add: sum_eq_empty_iff)
  also have "\<dots> \<longleftrightarrow> (\<forall>k. reports (take (n k) (?P k)) = [])"
    using z by blast
  finally show ?thesis unfolding e .
qed

text \<open>
  C5: a whole run of the backend from its constructor on, any interleaving of requests and packets
  of the hardware on any number of flows. The hypotheses: the trace is well-formed, all its IP headers
  are of the same length; every request finds that length in the uninitialised byte of its stack
  array that the code reads as the header length; every packet of the hardware has whole headers; and
  the packets that are paired by position on each flow have the same sizes. Then every call returns
  and the backend stays alive; on every flow the first
  pairs of packets of the hardware and of the trace are compared, all of them when the last packet
  of the flow came from the hardware; and the differing bytes of exactly these pairs are reported,
  each once. So nothing is reported if and only if all compared pairs are equal.
\<close>

theorem run_checks_all_flows:
  assumes ss: "sock_state_wf ss" and f: "fopen name ''rb'' = Some f" "pcap_trace_file f ps" "good_trace ss h ps"
    and w: "backend_life w = Alive" and host: "list_all host_ok (get_envs ops)"
    and stack_byte: "list_all (\<lambda>env. stack_ihl env = h) (get_envs ops)"
    and whole_headers: "list_all pkt_ok (put_pkts ops)"
    and s: "\<And>k. same_sizes (pairs_of (flow_ops ss k False ps ops))"
  shows "\<exists>b outs w' b' n. TCPPcapTestingLib_new fopen name w = Inr (w, b) \<and>
    backend_run ss ops (w, b) = Inr (outs, w', b') \<and> backend_life w' = Alive \<and>
    (\<forall>k. n k \<le> length (pairs_of (flow_ops ss k False ps ops)) \<and>
         (ends_with_test (flow_ops ss k False ps ops) \<longrightarrow> n k = length (pairs_of (flow_ops ss k False ps ops)))) \<and>
    mset (mismatches w') = mset (mismatches w) +
      (\<Sum>k \<in> pkt_key ss ` set ps. mset (reports (take (n k) (pairs_of (flow_ops ss k False ps ops))))) \<and>
    (mset (mismatches w') = mset (mismatches w) \<longleftrightarrow>
       (\<forall>k. \<forall>(r, t) \<in> set (take (n k) (pairs_of (flow_ops ss k False ps ops))). r = t))"
proof -
  let ?K = "pkt_key ss ` set ps" and ?P = "\<lambda>k. pairs_of (flow_ops ss k False ps ops)"
  have ops: "list_all (io_ok h) ops" using host stack_byte whole_headers by (simp add: list_all_io_ok)
  obtain b where b: "TCPPcapTestingLib_new fopen name w = Inr (w, b)" "replays ss h b (replay_start ps)"
    using new_replays [of fopen name f ps ss h w] f by auto
  obtain outs w' b' n where
    1: "backend_run ss ops (w, b) = Inr (outs, w', b')" "backend_life w' = Alive"
      "checked ?K b' w' (mset (mismatches w)) (\<lambda>k. flow_ops ss k False ps ops) n"
    using run_checked [OF ss b(2) new_checked [OF b(2), of ?K] w ops] s by (auto simp: replay_start_def)
  note c = checkedD [OF 1(3)]
  from checked_reports_iff [OF 1(3) s]
  b(1) 1(1,2) c(2,5,6) show ?thesis
    by (intro exI [of _ b] exI [of _ outs] exI [of _ w'] exI [of _ b'] exI [of _ n] conjI allI impI)
qed

section \<open>An example\<close>

text \<open>The reference packet of the flow that the example SYN opens, and what the hardware sends.\<close>

definition ex_ref :: "u8 \<Rightarrow> mem" where
  "ex_ref d =
     [9, 9, 9, 9, 9, 9, 1, 2, 3, 4, 5, 6, 8, 0,
      0x45, 0, 0, 41, 0, 0, 0, 0, 64, 6, 0, 0, 10, 0, 0, 2, 10, 0, 0, 1,
      0, 90, 0, 80, 0, 0, 0, 7, 0, 0, 0, 0, 0x50, 0x12, 0, 0, 0, 0, 0, 0, d]"

definition ex_file2 :: cfile where
  "ex_file2 = \<lparr>contents = pcap_header_bytes @ trace_bytes [(0, 0), (1, 0)] [ex_pkt TCP_SYN, ex_ref 7],
     fpos = 0, feof = False, room = 0\<rparr>"

lemma ex_setup2:
  "pcap_trace_file ex_file2 [ex_pkt TCP_SYN, ex_ref 7]"
  "good_trace ex_ss 5 [ex_pkt TCP_SYN, ex_ref 7]" "pkt_ok (ex_ref 8)"
  "pkt_key ex_ss ` set [ex_pkt TCP_SYN, ex_ref 7] = {pkt_key ex_ss (ex_ref 8)}"
proof -
  have "length pcap_header_bytes = 24" by (simp add: pcap_header_bytes_def)
  then show "pcap_trace_file ex_file2 [ex_pkt TCP_SYN, ex_ref 7]"
    unfolding pcap_trace_file_def ex_file2_def
    by (auto intro!: exI [of _ pcap_header_bytes] exI [of _ "[(0, 0), (1, 0)]"])
  show "good_trace ex_ss 5 [ex_pkt TCP_SYN, ex_ref 7]" "pkt_ok (ex_ref 8)" by code_simp+
  have "pkt_key ex_ss (ex_pkt TCP_SYN) = pkt_key ex_ss (ex_ref 8)" "pkt_key ex_ss (ex_ref 7) = pkt_key ex_ss (ex_ref 8)"
    by code_simp+
  then show "pkt_key ex_ss ` set [ex_pkt TCP_SYN, ex_ref 7] = {pkt_key ex_ss (ex_ref 8)}" by simp
qed

lemma ex_flow_ops:
  "flow_ops ex_ss k False [ex_pkt TCP_SYN, ex_ref 7] [GetOp ex_env, GetOp ex_env, PutOp ex_env (ex_ref 8)] =
    (if k = pkt_key ex_ss (ex_ref 8) then [Ref (ex_ref 7), Test (ex_ref 8)] else [])"
proof (cases "k = pkt_key ex_ss (ex_ref 8)")
  case True
  have "flow_ops ex_ss (pkt_key ex_ss (ex_ref 8)) False [ex_pkt TCP_SYN, ex_ref 7]
      [GetOp ex_env, GetOp ex_env, PutOp ex_env (ex_ref 8)] = [Ref (ex_ref 7), Test (ex_ref 8)]"
    by code_simp
  with True show ?thesis by simp
next
  case False
  then show ?thesis using flow_ops_unknown [of k ex_ss "[ex_pkt TCP_SYN, ex_ref 7]"] ex_setup2(4) by simp
qed

theorem run_checks_all_flows_witness:
  "\<exists>b outs w' b'. TCPPcapTestingLib_new (\<lambda>_ _. Some ex_file2) [] \<lparr>backend_life = Alive, out = []\<rparr> =
      Inr (\<lparr>backend_life = Alive, out = []\<rparr>, b) \<and>
    backend_run ex_ss [GetOp ex_env, GetOp ex_env, PutOp ex_env (ex_ref 8)]
      (\<lparr>backend_life = Alive, out = []\<rparr>, b) = Inr (outs, w', b') \<and>
    mset (mismatches w') =
      {#Print ''recved pkt different at byte %d. Expected %hhx, Got %hhx'' [54, 7, 8]#}"
proof -
  let ?ops = "[GetOp ex_env, GetOp ex_env, PutOp ex_env (ex_ref 8)]" and ?w = "\<lparr>backend_life = Alive, out = []\<rparr>"
  let ?ps = "[ex_pkt TCP_SYN, ex_ref 7]" and ?k = "pkt_key ex_ss (ex_ref 8)"
  have ok: "list_all host_ok (get_envs ?ops)" "list_all (\<lambda>env. stack_ihl env = 5) (get_envs ?ops)"
      "list_all pkt_ok (put_pkts ?ops)"
    using ex_setup(5,6) ex_setup2(3) by simp_all
  have s: "same_sizes (pairs_of (flow_ops ex_ss k False ?ps ?ops))" for k
    unfolding ex_flow_ops by (simp add: pairs_of_def same_sizes_def ex_ref_def)
  have r: "reports [(ex_ref 7, ex_ref 8)] =
      [Print ''recved pkt different at byte %d. Expected %hhx, Got %hhx'' [54, 7, 8]]" by code_simp
  have m: "mismatches ?w = []" by (simp add: mismatches_def)
  have "ends_with_test (flow_ops ex_ss ?k False ?ps ?ops)" "pairs_of (flow_ops ex_ss ?k False ?ps ?ops) = [(ex_ref 7, ex_ref 8)]"
    unfolding ex_flow_ops by (simp_all add: ends_with_test_def pairs_of_def)
  with run_checks_all_flows [of ex_ss "\<lambda>_ _. Some ex_file2" "[]" ex_file2 ?ps 5 ?w ?ops,
      OF ex_setup(1) refl ex_setup2(1,2) _ ok s]
  show ?thesis using r m ex_setup2(4) by auto
qed

end
