(* ===== verification/Checking.thy ===== *)
theory Checking
  imports Delivery TCP_Check
begin

text \<open>
  Both directions of the whole simulation: the simulator calls \<open>get_data\<close> and \<open>put_data\<close> in any
  order, with the flow-aware backend behind the pointer. What the network side asks of the backend
  in such a run is \<open>backend_calls\<close>, and the reports of the run are those that the flows of these
  calls deserve.
\<close>

section \<open>Runs of the simulator\<close>

datatype sim_call = GetData sysenv | PutData sysenv mem bool int

fun sim_step :: "sim_call \<Rightarrow> world \<times> DPITestingLib network_side \<Rightarrow> (world \<times> DPITestingLib network_side) res" where
  "sim_step (GetData env) c = get_data virtual_get virtual_put env c"
| "sim_step (PutData env v l p) c = put_data virtual_put env v l p c"

fun sim_run :: "sim_call list \<Rightarrow> world \<times> DPITestingLib network_side \<Rightarrow> (world \<times> DPITestingLib network_side) res" where
  "sim_run [] c = Inr c"
| "sim_run (x # xs) c = bindE (sim_step x c) (sim_run xs)"

text \<open>The bytes that a beat of the hardware carries.\<close>

definition beat_bytes :: "mem \<Rightarrow> bool \<Rightarrow> int \<Rightarrow> mem" where
  "beat_bytes v l p = rev (drop (if l then nat p else 0) v)"

text \<open>
  What the network side asks of the backend: a packet when the receive buffer is empty, and to
  take a packet when the hardware marks the last beat.
\<close>

definition step_calls :: "sim_call \<Rightarrow> DPITestingLib network_side \<Rightarrow> io_op list" where
  "step_calls x s =
     (case x of
        GetData env \<Rightarrow> if delivering (rx_data_if s) then [] else [GetOp env]
      | PutData env v l p \<Rightarrow>
          if l then [PutOp env (tx_buffer (tx_data_if s) @ beat_bytes v l p)] else [])"

fun backend_calls :: "sim_call list \<Rightarrow> world \<times> DPITestingLib network_side \<Rightarrow> io_op list" where
  "backend_calls [] c = []"
| "backend_calls (x # xs) c =
     step_calls x (snd c) @ (case sim_step x c of Inl _ \<Rightarrow> [] | Inr c' \<Rightarrow> backend_calls xs c')"

text \<open>A call as the simulator makes it: 32 bytes of data, and padding that fits the last beat.\<close>

definition call_ok :: "sim_call \<Rightarrow> bool" where
  "call_ok x =
     (case x of
        GetData env \<Rightarrow> host_ok env
      | PutData env v l p \<Rightarrow> length v = 32 \<and> (l \<longrightarrow> 0 \<le> p \<and> p \<le> 32))"

section \<open>What the network side adds to the world\<close>

lemma mismatches_drive [simp]: "mismatches (emit (DriveRx v d l p) w) = mismatches w"
  by (simp add: mismatches_def is_mismatch_def)

lemma mismatches_say_bytes [simp]: "mismatches (say_bytes bs w) = mismatches w"
  by (induction bs w rule: say_bytes.induct) simp_all

lemma get_data_beat_mismatches:
  "get_data_beat env (w, s) = Inr (w', s') \<Longrightarrow> mismatches w' = mismatches w"
  by (auto simp: get_data_beat_def Let_def res_simps)

lemma tx_push_mismatches: "tx_push n pad v (w, buf) = Inr (w', buf') \<Longrightarrow> mismatches w' = mismatches w"
  by (induction n pad v "(w, buf)" arbitrary: w buf rule: tx_push.induct)
    (auto simp: res_simps split: if_splits)

lemma checked_world: "mismatches w' = mismatches w \<Longrightarrow> checked K b w' M H n = checked K b w M H n"
  by (simp add: checked_def)

section \<open>The invariant of a run\<close>

definition sim_checked ::
  "sock_state \<Rightarrow> nat \<Rightarrow> TCPFlowTuple set \<Rightarrow> event multiset \<Rightarrow> world \<times> DPITestingLib network_side \<Rightarrow> replay \<Rightarrow>
   (TCPFlowTuple \<Rightarrow> flow_op list) \<Rightarrow> (TCPFlowTuple \<Rightarrow> nat) \<Rightarrow> bool" where
  "sim_checked ss h K M = (\<lambda>(w, s) a H n.
     rx_inv (rx_data_if s) \<and> instance_state s = ss \<and> backend_life w = Alive \<and> wires_ok a \<and>
     known a \<union> pkt_key ss ` set (trace a) \<subseteq> K \<and>
     (\<exists>b. sim_backend s = TCPPcapTrace b \<and> replays ss h b a \<and> checked K b w M H n))"

lemma sim_checked_beat:
  assumes c: "sim_checked ss h K M (w, s) a H n" and d: "delivering (rx_data_if s)" and e: "sysenv_wf env"
  shows "\<exists>w' s'. get_data_beat env (w, s) = Inr (w', s') \<and> sim_checked ss h K M (w', s') a H n"
proof -
  have inv: "rx_inv (rx_data_if s)" using c by (simp add: sim_checked_def)
  obtain w' rx' where 1: "get_data_beat env (w, s) = Inr (w', s\<lparr>rx_data_if := rx'\<rparr>)" "rx_inv rx'"
      "backend_life w' = backend_life w"
    using get_data_beat_spec [OF inv d e, of w] by auto
  with c checked_world [OF get_data_beat_mismatches [OF 1(1)]] show ?thesis by (auto simp: sim_checked_def)
qed

lemma sim_checked_get:
  assumes ss: "sock_state_wf ss" and c: "sim_checked ss h K M (w, s) a H n" and call: "call_ok (GetData env)"
    and io: "list_all (io_ok h) (step_calls (GetData env) s)"
  shows "\<exists>w' s' a'. get_data virtual_get virtual_put env (w, s) = Inr (w', s') \<and>
    (\<forall>k ops. flow_ops ss k (k \<in> known a) (trace a) (step_calls (GetData env) s @ ops) =
       flow_ops ss k (k \<in> known a) (trace a) (step_calls (GetData env) s) @ flow_ops ss k (k \<in> known a') (trace a') ops) \<and>
    sim_checked ss h K M (w', s') a'
      (\<lambda>k. H k @ flow_ops ss k (k \<in> known a) (trace a) (step_calls (GetData env) s)) n"
proof (cases "delivering (rx_data_if s)")
  case True
  then show ?thesis
    using sim_checked_beat [OF c True, of env] call
    by (auto simp: step_calls_def get_data_delivering call_ok_def host_ok_def)
next
  case False
  have e: "env_ok h env" using io False by (simp add: step_calls_def io_ok_def)
  obtain b where b: "sim_backend s = TCPPcapTrace b" "replays ss h b a" "checked K b w M H n"
    and i: "instance_state s = ss" "backend_life w = Alive" "rx_inv (rx_data_if s)" "wires_ok a"
    and K: "known a \<union> pkt_key ss ` set (trace a) \<subseteq> K"
    using c by (auto simp: sim_checked_def)
  have wf: "replay_wf ss a" using b(2) by (simp add: replays_def)
  let ?H = "\<lambda>k. H k @ map Ref (read_ref ss (trace a) k)"
  obtain pkt w1 b1 a1 where
    1: "TCPPcap_get_buf_fr_io env ss (w, b) = Inr (pkt, w1, b1)" "replay_step ss a pkt a1"
      "replays ss h b1 a1" "backend_life w1 = Alive" "known a1 \<union> pkt_key ss ` set (trace a1) \<subseteq> K"
      "checked K b1 w1 M ?H n"
    using get_step [OF ss b(2,3) i(2) e K] by blast
  have g: "virtual_get env (instance_state s) (w, sim_backend s) = Inr (pkt, w1, TCPPcapTrace b1)"
    using 1(1) b(1) i(1) by (simp add: virtual_get_def with_obj_def)
  note wires = wires_ok_step [OF 1(2) i(4) wf]
  have life: "backend_life w \<noteq> Dead" using i(2) by simp
  have fo: "flow_ops ss k (k \<in> known a) (trace a) (step_calls (GetData env) s @ ops) =
       map Ref (read_ref ss (trace a) k) @ flow_ops ss k (k \<in> known a1) (trace a1) ops" for k ops
    using False flow_ops_get [OF 1(2)] by (simp add: step_calls_def)
  have fo1: "flow_ops ss k (k \<in> known a) (trace a) (step_calls (GetData env) s) = map Ref (read_ref ss (trace a) k)" for k
    using fo [of k "[]"] by simp
  have "\<exists>w' s'. get_data virtual_get virtual_put env (w, s) = Inr (w', s') \<and> sim_checked ss h K M (w', s') a1 ?H n"
  proof (rule fetch_wire [OF life g])
    let ?s = "s\<lparr>sim_backend := TCPPcapTrace b1\<rparr>"
    assume q: "pkt = []" "recv_from_socket virtual_get virtual_put env (w, s) = Inr (0, w1, ?s)"
    let ?w = "emit (DriveRx False (replicate mac_bytes 0) False 0) w1"
    have "get_data virtual_get virtual_put env (w, s) = Inr (?w, ?s)"
      using False q(2) by (simp add: get_data_def delivering_def not_less)
    moreover have "sim_checked ss h K M (?w, ?s) a1 ?H n"
      using 1(3-6) i wires checked_world [of ?w w1] by (simp add: sim_checked_def)
    ultimately show ?thesis by blast
  next
    fix rx
    let ?s = "s\<lparr>sim_backend := TCPPcapTrace b1, rx_data_if := rx\<rparr>"
    let ?w = "say ''Buffer len: %d'' [int (frame_len pkt)] w1"
    assume f: "rx_inv rx" "delivering rx" "0 < frame_len pkt"
      "recv_from_socket virtual_get virtual_put env (w, s) = Inr (int (frame_len pkt), ?w, ?s)"
    have "sim_checked ss h K M (?w, ?s) a1 ?H n"
      using 1(3-6) i wires f(1) checked_world [of ?w w1] by (simp add: sim_checked_def)
    from sim_checked_beat [OF this _ env_okD(1) [OF e]] f(2) obtain w' s' where
      "get_data_beat env (?w, ?s) = Inr (w', s')" "sim_checked ss h K M (w', s') a1 ?H n"
      by auto
    moreover have "get_data virtual_get virtual_put env (w, s) = get_data_beat env (?w, ?s)"
      using False f(3,4) by (simp add: get_data_def delivering_def not_less)
    ultimately show ?thesis by auto
  qed (use wires in simp)
  then show ?thesis unfolding fo1 fo by blast
qed

text \<open>A beat of the hardware is appended; the last one hands the packet over.\<close>

lemma put_data_appends:
  assumes "length v = 32" "l \<longrightarrow> 0 \<le> p \<and> p \<le> 32"
  obtains w1 where "backend_life w1 = backend_life w" "mismatches w1 = mismatches w"
    "put_data put env v l p (w, s) =
      (let s1 = s\<lparr>tx_data_if := (tx_data_if s)\<lparr>tx_buffer := tx_buffer (tx_data_if s) @ beat_bytes v l p\<rparr>\<rparr>
       in if l then send_on_socket put env (w1, s1) else Inr (w1, s1))"
proof -
  let ?p = "if l then nat p else 0" and ?buf = "tx_buffer (tx_data_if s)"
  let ?w = "say ''Putting data in vector. Buffer: '' []
    (if l then say ''Padbytes is: %d'' [if l then p else 0] w else w)"
  have p: "(if l then p else 0) = int ?p" "?p \<le> 32" using assms(2) by auto
  obtain w1 where 1: "tx_push 32 (int ?p) v (?w, ?buf) = Inr (w1, ?buf @ rev (drop ?p (take 32 v)))"
      "backend_life w1 = backend_life ?w"
    using tx_push_spec [of 32 v ?p ?w ?buf] assms(1) p(2) by auto
  have "mismatches w1 = mismatches w" using tx_push_mismatches [OF 1(1)] by simp
  with 1 p assms show thesis
    by (intro that [of "say [] [] w1"]; cases l) (simp_all add: put_data_def Let_def beat_bytes_def)
qed

lemma sim_checked_put:
  assumes ss: "sock_state_wf ss" and c: "sim_checked ss h K M (w, s) a H n" and v: "call_ok (PutData env v l p)"
    and ok: "list_all (io_ok h) (step_calls (PutData env v l p) s)"
    and sz: "\<And>k. same_sizes (pairs_of (H k @ flow_ops ss k (k \<in> known a) (trace a) (step_calls (PutData env v l p) s)))"
  shows "\<exists>w' s' n'. put_data virtual_put env v l p (w, s) = Inr (w', s') \<and>
    sim_checked ss h K M (w', s') a
      (\<lambda>k. H k @ flow_ops ss k (k \<in> known a) (trace a) (step_calls (PutData env v l p) s)) n'"
proof -
  obtain b where b: "sim_backend s = TCPPcapTrace b" "replays ss h b a" "checked K b w M H n"
    and i: "instance_state s = ss" "backend_life w = Alive" "rx_inv (rx_data_if s)" "wires_ok a"
    and K: "known a \<union> pkt_key ss ` set (trace a) \<subseteq> K"
    using c by (auto simp: sim_checked_def)
  let ?pkt = "tx_buffer (tx_data_if s) @ beat_bytes v l p"
  let ?s = "s\<lparr>tx_data_if := (tx_data_if s)\<lparr>tx_buffer := ?pkt\<rparr>\<rparr>"
  obtain w1 where w1: "backend_life w1 = Alive" "mismatches w1 = mismatches w"
    and pd: "put_data virtual_put env v l p (w, s) = (if l then send_on_socket virtual_put env (w1, ?s) else Inr (w1, ?s))"
    using put_data_appends [of v l p w virtual_put env s] v i(2) unfolding call_ok_def Let_def by auto
  have c1: "checked K b w1 M H n" using b(3) checked_world [OF w1(2)] by simp
  show ?thesis
  proof (cases l)
    case False
    with pd b i K c1 w1(1) show ?thesis by (auto simp: step_calls_def sim_checked_def)
  next
    case True
    have fo: "flow_ops ss k (k \<in> known a) (trace a) (step_calls (PutData env v l p) s) = put_test ss a ?pkt k" for k
      using True by (simp add: step_calls_def put_test_def)
    let ?w = "say ''Length: %d'' [sint (of_nat (length ?pkt) :: u32)] (say ''========Outgoing packet========'' [] w1)"
    have c2: "checked K b ?w M H n" using c1 checked_world [of ?w w1] by simp
    have p: "pkt_ok ?pkt" "known a \<subseteq> K" using ok True K by (simp_all add: step_calls_def io_ok_def)
    have "backend_life ?w = Alive" using w1(1) by simp
    from put_step [OF ss b(2) c2 this p, of env] sz [unfolded fo, of "pkt_key ss ?pkt"] obtain m w2 b2 n2 where
      2: "TCPPcap_put_buf_on_io env ss ?pkt (?w, b) = Inr (m, w2, b2)" "replays ss h b2 a"
        "backend_life w2 = Alive" "checked K b2 w2 M (\<lambda>k. H k @ put_test ss a ?pkt k) n2"
      by blast
    let ?w' = "say ''==============================='' [] (say ''Bytes sent: %d'' [m] w2)"
    let ?s' = "?s\<lparr>sim_backend := TCPPcapTrace b2, tx_data_if := (tx_data_if ?s)\<lparr>tx_buffer := []\<rparr>\<rparr>"
    have "send_on_socket virtual_put env (w1, ?s) = Inr (?w', ?s')"
      using 2(1) b(1) i(1) w1(1) by (simp add: send_on_socket_def Let_def virtual_put_def with_obj_def)
    moreover have "sim_checked ss h K M (?w', ?s') a (\<lambda>k. H k @ put_test ss a ?pkt k) n2"
      using 2(2-4) i K checked_world [of ?w' w2] by (simp add: sim_checked_def)
    ultimately show ?thesis using pd True unfolding fo by auto
  qed
qed

section \<open>Runs\<close>

lemma flow_ops_put:
  "flow_ops ss k seen ps (step_calls (PutData env v l p) s @ ops) =
   flow_ops ss k seen ps (step_calls (PutData env v l p) s) @ flow_ops ss k seen ps ops"
  by (simp add: step_calls_def)

lemma flow_ops_prefix: "\<exists>zs. flow_ops ss k seen ps (xs @ ys) = flow_ops ss k seen ps xs @ zs"
proof (induction xs arbitrary: seen ps)
  case (Cons x xs)
  then show ?case by (cases x; cases ps) auto
qed simp

lemma sim_checked_step:
  assumes ss: "sock_state_wf ss" and c: "sim_checked ss h K M (w, s) a H n" and ok: "call_ok x"
    and io: "list_all (io_ok h) (step_calls x s)"
    and sz: "\<And>k. same_sizes (pairs_of (H k @ flow_ops ss k (k \<in> known a) (trace a) (step_calls x s)))"
  obtains c' a' n' where "sim_step x (w, s) = Inr c'"
    "\<And>k ops. flow_ops ss k (k \<in> known a) (trace a) (step_calls x s @ ops) =
       flow_ops ss k (k \<in> known a) (trace a) (step_calls x s) @ flow_ops ss k (k \<in> known a') (trace a') ops"
    "sim_checked ss h K M c' a' (\<lambda>k. H k @ flow_ops ss k (k \<in> known a) (trace a) (step_calls x s)) n'"
proof (cases x)
  case (GetData env)
  from sim_checked_get [OF ss c ok [unfolded GetData] io [unfolded GetData]] obtain w' s' a' where
    "get_data virtual_get virtual_put env (w, s) = Inr (w', s')"
    "\<And>k ops. flow_ops ss k (k \<in> known a) (trace a) (step_calls x s @ ops) =
       flow_ops ss k (k \<in> known a) (trace a) (step_calls x s) @ flow_ops ss k (k \<in> known a') (trace a') ops"
    "sim_checked ss h K M (w', s') a' (\<lambda>k. H k @ flow_ops ss k (k \<in> known a) (trace a) (step_calls x s)) n"
    unfolding GetData by blast
  then show thesis using GetData by (intro that [of "(w', s')" a' n]) simp_all
next
  case (PutData env v l p)
  from sim_checked_put [OF ss c ok [unfolded PutData] io [unfolded PutData] sz [unfolded PutData]] obtain w' s' n' where
    "put_data virtual_put env v l p (w, s) = Inr (w', s')"
    "sim_checked ss h K M (w', s') a (\<lambda>k. H k @ flow_ops ss k (k \<in> known a) (trace a) (step_calls x s)) n'"
    unfolding PutData by blast
  then show thesis using PutData by (intro that [of "(w', s')" a n']) (simp_all add: flow_ops_put)
qed

lemma sim_checked_run:
  assumes ss: "sock_state_wf ss"
  shows "sim_checked ss h K M c a H n \<Longrightarrow> list_all (call_ok) xs \<Longrightarrow> list_all (io_ok h) (backend_calls xs c) \<Longrightarrow>
    (\<And>k. same_sizes (pairs_of (H k @ flow_ops ss k (k \<in> known a) (trace a) (backend_calls xs c)))) \<Longrightarrow>
    \<exists>c' a' n'. sim_run xs c = Inr c' \<and>
      sim_checked ss h K M c' a' (\<lambda>k. H k @ flow_ops ss k (k \<in> known a) (trace a) (backend_calls xs c)) n'"
proof (induction xs arbitrary: c a H n)
  case Nil
  then show ?case by auto
next
  case (Cons x xs)
  obtain w s where c: "c = (w, s)" by (cases c)
  have "same_sizes (pairs_of (H k @ flow_ops ss k (k \<in> known a) (trace a) (step_calls x s)))" for k
  proof -
    obtain zs where "flow_ops ss k (k \<in> known a) (trace a) (backend_calls (x # xs) c) =
        flow_ops ss k (k \<in> known a) (trace a) (step_calls x s) @ zs"
      using flow_ops_prefix [of ss k "k \<in> known a" "trace a" "step_calls x s"] c by auto
    with Cons.prems(4) [of k] show ?thesis by (metis append_assoc same_sizes_prefix)
  qed
  moreover have "call_ok x" "list_all (io_ok h) (step_calls x s)" using Cons.prems(2,3) c by simp_all
  ultimately obtain c' a' n' where 1: "sim_step x c = Inr c'"
      "\<And>k ops. flow_ops ss k (k \<in> known a) (trace a) (step_calls x s @ ops) =
         flow_ops ss k (k \<in> known a) (trace a) (step_calls x s) @ flow_ops ss k (k \<in> known a') (trace a') ops"
      "sim_checked ss h K M c' a' (\<lambda>k. H k @ flow_ops ss k (k \<in> known a) (trace a) (step_calls x s)) n'"
    using sim_checked_step [OF ss Cons.prems(1) [unfolded c], of x] c by blast
  have bc: "backend_calls (x # xs) c = step_calls x s @ backend_calls xs c'" using 1(1) c by simp
  have "\<exists>c2 a2 n2. sim_run xs c' = Inr c2 \<and>
      sim_checked ss h K M c2 a2 (\<lambda>k. (H k @ flow_ops ss k (k \<in> known a) (trace a) (step_calls x s)) @
        flow_ops ss k (k \<in> known a') (trace a') (backend_calls xs c')) n2"
    by (rule Cons.IH [OF 1(3)]) (use Cons.prems(2) Cons.prems(3,4) [unfolded bc 1(2)] in simp_all)
  then show ?case unfolding bc 1(2) append_assoc by (simp add: 1(1))
qed

end
