(* ===== verification/TCP_Conserve.thy ===== *)
theory TCP_Conserve
  imports TCP_Replay "HOL-Library.Multiset"
begin

text \<open>
  What the flow-aware backend keeps whatever the stack holds. The flow key of a packet of the trace
  depends on an uninitialised byte, so packets can land on the wrong flow; but no packet is ever
  duplicated or made up. This is the accounting behind it: the packets handed out, those queued in
  the flow table and those still in the file are at all times the packets of the trace for the
  simulated host, each counted as often as the trace has it. Shown as well: a wrong byte can make
  a request fault.
\<close>

section \<open>Accounting\<close>

definition queued :: "TCPPcapTestingLib \<Rightarrow> mem multiset" where
  "queued b = \<Sum>\<^sub># (mset (map (\<lambda>(k, c). mset (pkts_to_send c)) (tcp_flows b)))"

text \<open>The packet that a request is answered with, if any.\<close>

definition given :: "mem \<Rightarrow> mem multiset" where
  "given pkt = (if pkt = [] then {#} else {#pkt#})"

definition to_send :: "sock_state \<Rightarrow> mem list \<Rightarrow> mem multiset" where
  "to_send ss ps = mset (filter (for_us ss) ps)"

lemma queued_file [simp]: "queued (b\<lparr>pcap_file := f\<rparr>) = queued b"
  by (simp add: queued_def)

lemma queued_insert [simp]:
  "queued (b\<lparr>tcp_flows := tcp_flows b @ [(k, c)]\<rparr>) = queued b + mset (pkts_to_send c)"
  by (simp add: queued_def)

lemma sum_update:
  "map_of xs k = Some c \<Longrightarrow>
   \<Sum>\<^sub># (mset (map (\<lambda>(k, c). mset (q c)) (AList.update k c' xs))) + mset (q c) =
   \<Sum>\<^sub># (mset (map (\<lambda>(k, c). mset (q c)) xs)) + mset (q c')"
  by (induction xs) (auto split: if_splits simp: ac_simps)

lemma queued_update:
  "map_of (tcp_flows b) k = Some c \<Longrightarrow>
   queued (b\<lparr>tcp_flows := AList.update k c' (tcp_flows b)\<rparr>) + mset (pkts_to_send c) =
   queued b + mset (pkts_to_send c')"
  unfolding queued_def using sum_update [of "tcp_flows b" k c pkts_to_send c'] by simp

lemma queued_member:
  "map_of (tcp_flows b) k = Some c \<Longrightarrow> p \<in> set (pkts_to_send c) \<Longrightarrow> p \<in># queued b"
  by (force simp: queued_def dest: map_of_SomeD)

text \<open>A record of the trace, under whatever key: it is queued or handed out exactly when it is for us.\<close>

lemma get_new_conserves:
  assumes "get_new sp k p b = Inr (pkt, b')" "p \<noteq> []"
  shows "given pkt + queued b' = queued b + (if sp then {#p#} else {#}) \<and> pcap_file b' = pcap_file b"
  using assms
  by (auto simp: get_new_def Let_def res_simps given_def buf_process_helper_frame TCPMimic_new_def
      put_pkts_to_recv_back_def split: if_splits)

lemma get_existing_conserves:
  assumes c: "map_of (tcp_flows b) k = Some c" "\<not> handshake_done c"
    and g: "get_existing sp k c p b = Inr (pkt, b')"
  shows "given pkt + queued b' = queued b + (if sp then {#p#} else {#}) \<and> pcap_file b' = pcap_file b"
proof -
  let ?upd = "\<lambda>c'. b\<lparr>tcp_flows := AList.update k c' (tcp_flows b)\<rparr>"
  have "pkt = [] \<and> b' = ?upd (if sp then put_pkts_to_send_back p c else put_pkts_to_recv_back p c)"
    using g c(2) by (auto simp: get_existing_def Let_def get_handshake_done_def split: if_splits)
  then show ?thesis
    using queued_update [OF c(1), of "put_pkts_to_send_back p c"] queued_update [OF c(1), of "put_pkts_to_recv_back p c"]
    by (auto simp: given_def put_pkts_to_send_back_def put_pkts_to_recv_back_def)
qed

lemma drain_conserves:
  assumes "drain keys b = Inr (pkt, b')" "[] \<notin># queued b"
  shows "given pkt + queued b' = queued b \<and> pcap_file b' = pcap_file b"
  using assms(1)
proof (cases rule: drain_cases)
  case idle
  then show ?thesis by (simp add: given_def)
next
  case (release k c ps c')
  have "pkt \<noteq> []" using queued_member [OF release(2), of pkt] release(3) assms(2) by auto
  then show ?thesis
    using queued_update [OF release(2), of c'] release(3,5) buf_process_helper_frame(4) [OF release(4)]
    by (simp add: given_def)
qed

section \<open>One request\<close>

text \<open>A packet that the file holds has a destination address and is not empty.\<close>

definition addressed :: "mem \<Rightarrow> bool" where
  "addressed p \<longleftrightarrow> 6 \<le> length p \<and> length p \<le> 2048"

lemma get_conserves:
  assumes ss: "sock_state_wf ss" and e: "sysenv_wf env" and inv: "tcp_inv b" "[] \<notin># queued b"
    and f: "file_holds (pcap_file b) ps" "list_all addressed ps"
    and g: "TCPPcap_get_buf_fr_io env ss (w, b) = Inr (pkt, w', b')"
  shows "\<exists>ps'. file_holds (pcap_file b') ps' \<and> list_all addressed ps' \<and>
    given pkt + queued b' + to_send ss ps' = queued b + to_send ss ps \<and> [] \<notin># queued b'"
proof -
  let ?g = "stack_garbage env"
  have l: "length ?g = 2048" using e by (simp add: sysenv_wf_def)
  from g have "\<exists>ps'. file_holds (pcap_file b') ps' \<and> list_all addressed ps' \<and>
    given pkt + queued b' + to_send ss ps' = queued b + to_send ss ps"
  proof (cases rule: TCPPcap_getE)
    case (packet n buffer f1 w1 sp key)
    obtain p qs where ps: "ps = p # qs"
      using packet(1,2) f(1) read_held_nothing [of "pcap_file b" ?g w] by (cases ps) auto
    have p: "6 \<le> length p" "length p \<le> 2048" "list_all addressed qs" using f(2) ps by (simp_all add: addressed_def)
    then have ok: "p \<noteq> []" "length p \<le> length ?g" "length p < 2 ^ 31" using l by auto
    obtain f2 w2 where r: "read_pcap_record (pcap_file b) ?g w = Inr (int (length p), p @ drop (length p) ?g, f2, w2)"
        "file_holds f2 qs"
      using read_held_record [OF f(1) [unfolded ps] ok] by blast
    with packet(1) have eq: "n = int (length p)" "buffer = p @ drop (length p) ?g" "f1 = f2" by auto
    have sp: "sp = for_us ss p"
      using packet(3) is_our_mac_iff [of buffer ss] ss p(1) by (simp add: eq sock_state_wf_def for_us_def)
    let ?b = "b\<lparr>pcap_file := f2\<rparr>"
    have "given pkt + queued b' = queued b + (if sp then {#p#} else {#}) \<and> pcap_file b' = f2"
    proof (cases "map_of (tcp_flows b) key")
      case None
      with packet(5) get_new_conserves [of sp key p ?b pkt b'] ok(1) show ?thesis by (simp add: eq)
    next
      case (Some c)
      with packet(5) get_existing_conserves [of ?b key c sp p pkt b'] tcp_inv_flow [OF inv(1) Some]
      show ?thesis by (simp add: eq)
    qed
    with r(2) p(3) show ?thesis by (intro exI [of _ qs]) (simp add: to_send_def ps sp)
  next
    case (exhausted n buffer f1)
    have "ps = []"
    proof (rule ccontr)
      assume "ps \<noteq> []"
      then obtain p qs where ps: "ps = p # qs" by (cases ps) auto
      with f(2) l have "p \<noteq> []" "length p \<le> length ?g" "length p < 2 ^ 31" by (auto simp: addressed_def)
      from read_held_record [OF f(1) [unfolded ps] this, of w] exhausted(1,2) \<open>p \<noteq> []\<close> show False by auto
    qed
    with exhausted(1) f(1) read_held_nothing [of "pcap_file b" ?g w] have "file_holds f1 []" by auto
    with drain_conserves [OF exhausted(3)] inv(2) \<open>ps = []\<close> show ?thesis
      by (intro exI [of _ "[]"]) (simp add: to_send_def)
  qed
  moreover have "[] \<notin># queued b + to_send ss ps"
    using inv(2) f(2) by (auto simp: to_send_def list_all_iff addressed_def)
  ultimately show ?thesis by (metis union_iff)
qed

text \<open>A packet of the hardware does not touch what is to be sent.\<close>

lemma put_conserves:
  assumes "TCPPcap_put_buf_on_io env ss p (w, b) = Inr (n, w', b')"
  shows "queued b' = queued b \<and> pcap_file b' = pcap_file b"
  using assms
proof (cases rule: TCPPcap_putE)
  case (flow k c c')
  then show ?thesis using queued_update [OF flow(2), of c'] put_on_flow_frame(4) [OF flow(3)] by simp
qed simp

section \<open>Runs\<close>

lemma run_conserves:
  assumes ss: "sock_state_wf ss"
  shows "backend_run ss ops (w, b) = Inr (outs, w', b') \<Longrightarrow> tcp_inv b \<Longrightarrow> [] \<notin># queued b \<Longrightarrow>
    list_all sysenv_wf (get_envs ops) \<Longrightarrow> file_holds (pcap_file b) ps \<Longrightarrow> list_all addressed ps \<Longrightarrow>
    \<exists>ps'. file_holds (pcap_file b') ps' \<and>
      mset (filter (\<lambda>p. p \<noteq> []) outs) + queued b' + to_send ss ps' = queued b + to_send ss ps"
proof (induction ops arbitrary: w b ps outs)
  case (Cons op ops)
  show ?case
  proof (cases op)
    case (GetOp env)
    with Cons.prems(1) obtain p w1 b1 outs1 where
      1: "TCPPcap_get_buf_fr_io env ss (w, b) = Inr (p, w1, b1)"
        "backend_run ss ops (w1, b1) = Inr (outs1, w', b')" "outs = p # outs1"
      by (auto simp: res_simps)
    have "sysenv_wf env" "list_all sysenv_wf (get_envs ops)" using Cons.prems(4) GetOp by simp_all
    with get_conserves [OF ss _ Cons.prems(2,3,5,6) 1(1)] obtain ps1 where
      2: "file_holds (pcap_file b1) ps1" "list_all addressed ps1" "[] \<notin># queued b1"
        "given p + queued b1 + to_send ss ps1 = queued b + to_send ss ps"
      by blast
    from Cons.IH [OF 1(2) TCPPcap_get_inv [OF Cons.prems(2) 1(1)] 2(3) _ 2(1,2)] Cons.prems(4) GetOp obtain ps' where
      "file_holds (pcap_file b') ps'"
      "mset (filter (\<lambda>p. p \<noteq> []) outs1) + queued b' + to_send ss ps' = queued b1 + to_send ss ps1"
      by auto
    with 1(3) 2(4) show ?thesis by (intro exI [of _ ps']) (auto simp: given_def ac_simps)
  next
    case (PutOp env p)
    with Cons.prems(1) obtain n w1 b1 where
      1: "TCPPcap_put_buf_on_io env ss p (w, b) = Inr (n, w1, b1)" "backend_run ss ops (w1, b1) = Inr (outs, w', b')"
      by (auto simp: res_simps)
    from Cons.IH [OF 1(2)] tcp_trace.put_inv [OF Cons.prems(2) 1(1)] put_conserves [OF 1(1)] Cons.prems PutOp
    show ?thesis by simp
  qed
qed auto

text \<open>
  C29: whatever the uninitialised stack array holds in each request, and whatever the hardware sends,
  the backend neither duplicates nor invents nor loses a packet: after any run that returns, the
  packets handed out, those queued in the flow table and those for the simulated host that are still
  in the file are together, each counted as often as it occurs, the packets of the trace for the
  simulated host. So everything handed out is a packet of the trace for the simulated host, at most
  as often as the trace has it.
\<close>

theorem replay_conserves:
  assumes "sock_state_wf ss" "fopen name ''rb'' = Some f" "pcap_trace_file f ps"
    and "list_all (\<lambda>p. 6 \<le> length p \<and> length p \<le> 2048) ps" "list_all sysenv_wf (get_envs ops)"
    and "TCPPcapTestingLib_new fopen name w = Inr (w1, b)"
    and "backend_run ss ops (w1, b) = Inr (outs, w2, b')"
  shows "(\<exists>rest. file_holds (pcap_file b') rest \<and>
      mset (filter (\<lambda>p. p \<noteq> []) outs) + queued b' + mset (filter (for_us ss) rest) = mset (filter (for_us ss) ps)) \<and>
    mset (filter (\<lambda>p. p \<noteq> []) outs) \<subseteq># mset (filter (for_us ss) ps)"
proof -
  obtain g where g: "consumePCAPHeader f = (0, g)" "file_holds g ps"
    using consume_trace_file [OF assms(3)] by blast
  with assms(2,6) have b: "b = \<lparr>pcap_file = g, tcp_flows = []\<rparr>" by (simp add: TCPPcapTestingLib_new_def)
  have "list_all addressed ps" using assms(4) by (simp add: addressed_def [abs_def])
  from run_conserves [OF assms(1,7) _ _ assms(5) _ this] g(2) obtain rest where
    "file_holds (pcap_file b') rest"
    "mset (filter (\<lambda>p. p \<noteq> []) outs) + queued b' + to_send ss rest = to_send ss ps"
    by (auto simp: b tcp_inv_def queued_def)
  then have r: "file_holds (pcap_file b') rest \<and>
      mset (filter (\<lambda>p. p \<noteq> []) outs) + queued b' + mset (filter (for_us ss) rest) = mset (filter (for_us ss) ps)"
    by (simp add: to_send_def)
  have "mset (filter (\<lambda>p. p \<noteq> []) outs) \<subseteq># mset (filter (\<lambda>p. p \<noteq> []) outs) + (queued b' + mset (filter (for_us ss) rest))"
    by (rule mset_subset_eq_add_left)
  with r have "mset (filter (\<lambda>p. p \<noteq> []) outs) \<subseteq># mset (filter (for_us ss) ps)" by (simp only: add.assoc)
  with r show ?thesis by blast
qed

text \<open>The example: the stack byte is wrong in every request, and all packets come out all the same.\<close>

definition ex_wrong_env :: sysenv where
  "ex_wrong_env = ex_env\<lparr>stack_garbage := replicate 2048 0\<rparr>"

definition ex_backend :: TCPPcapTestingLib where
  "ex_backend = \<lparr>pcap_file = ex_file\<lparr>fpos := 24, feof := False\<rparr>, tcp_flows = []\<rparr>"

lemma ex_backend_new:
  "TCPPcapTestingLib_new (\<lambda>_ _. Some ex_file) [] \<lparr>backend_life = NullPtr, out = []\<rparr> =
     Inr (\<lparr>backend_life = NullPtr, out = []\<rparr>, ex_backend)"
proof -
  have "length (contents ex_file) = 164" "\<not> feof ex_file" "fpos ex_file = 0"
    by (simp_all add: ex_file_def pcap_header_bytes_def)
  then have "consumePCAPHeader ex_file = (0, ex_file\<lparr>fpos := 24, feof := False\<rparr>)"
    using consume_fields_ok [of ex_file "[4, 2, 2, 4, 4, 4, 4]"] by (simp add: consumePCAPHeader_def)
  then show ?thesis by (simp add: TCPPcapTestingLib_new_def ex_backend_def)
qed

theorem replay_conserves_witness:
  "\<exists>outs w b rest.
    backend_run ex_ss [GetOp ex_wrong_env, GetOp ex_wrong_env, GetOp ex_wrong_env]
      (\<lparr>backend_life = NullPtr, out = []\<rparr>, ex_backend) = Inr (outs, w, b) \<and>
    outs = [ex_pkt TCP_SYN, [], ex_pkt TCP_ACK] \<and> file_holds (pcap_file b) rest \<and>
    mset (filter (\<lambda>p. p \<noteq> []) outs) + queued b + mset (filter (for_us ex_ss) rest) =
      {#ex_pkt TCP_SYN, ex_pkt TCP_ACK#}"
proof -
  let ?ops = "[GetOp ex_wrong_env, GetOp ex_wrong_env, GetOp ex_wrong_env]"
  let ?w = "\<lparr>backend_life = NullPtr, out = []\<rparr>" and ?ps = "[ex_pkt TCP_SYN, ex_pkt TCP_ACK]"
  have "(case backend_run ex_ss ?ops (?w, ex_backend) of Inl _ \<Rightarrow> False
      | Inr (outs, _) \<Rightarrow> outs = [ex_pkt TCP_SYN, [], ex_pkt TCP_ACK])" by code_simp
  then obtain w b where r: "backend_run ex_ss ?ops (?w, ex_backend) = Inr ([ex_pkt TCP_SYN, [], ex_pkt TCP_ACK], w, b)"
    by (auto split: sum.splits simp del: io_run.simps)
  have e: "list_all sysenv_wf (get_envs ?ops)" by (simp add: ex_wrong_env_def sysenv_wf_def)
  have u: "filter (for_us ex_ss) ?ps = ?ps" by code_simp
  have "list_all (\<lambda>p. 6 \<le> length p \<and> length p \<le> 2048) ?ps" by simp
  from replay_conserves [OF ex_setup(1) refl ex_setup(2) this e ex_backend_new r] u show ?thesis
    using r by (auto simp del: io_run.simps)
qed

section \<open>A wrong stack byte\<close>

text \<open>A request that reads a packet to be sent, with the key that the stack byte leads to.\<close>

lemma get_at_key:
  assumes ss: "sock_state_wf ss" and e: "sysenv_wf env"
    and f: "file_holds (pcap_file b) (p # ps)" and p: "pkt_ok p" "for_us ss p"
    and k: "lookup_tuple_of (p @ drop (length p) (stack_garbage env)) (14 + 4 * stack_ihl env) True = Inr key"
  obtains f' w' where "file_holds f' ps" "backend_life w' = backend_life w"
    "TCPPcap_get_buf_fr_io env ss (w, b) =
       bindE (case map_of (tcp_flows b) key of
                Some c \<Rightarrow> get_existing True key c p (b\<lparr>pcap_file := f'\<rparr>)
              | None \<Rightarrow> get_new True key p (b\<lparr>pcap_file := f'\<rparr>))
         (\<lambda>(pkt, b). Inr (pkt, w', b))"
proof -
  let ?g = "stack_garbage env"
  have g: "length ?g = 2048" using e by (simp add: sysenv_wf_def)
  have l: "p \<noteq> []" "length p \<le> length ?g" "length p < 2 ^ 31" using p(1) g by (auto simp: pkt_ok_def)
  obtain f' w' where r: "read_pcap_record (pcap_file b) ?g w = Inr (int (length p), p @ drop (length p) ?g, f', w')"
      "file_holds f' ps"
    using read_held_record [OF f l] by blast
  show thesis
    by (rule that [of f' "say ''Sending packet'' [] w'"])
      (use r l k is_our_mac_pkt [OF p(1) ss] p(2) g read_pcap_record_frame [OF r(1)]
       in \<open>simp_all add: TCPPcap_get_buf_fr_io_def Let_def load_byte stack_ihl_def cong: option.case_cong\<close>)
qed

text \<open>
  A packet to be sent that is not a SYN is taken for the first of a new flow when the key that is
  computed with the help of the stack byte is not in the table, and then an indeterminate
  acknowledgement number is used.
\<close>

lemma buf_process_helper_first:
  assumes p: "pkt_ok p" "\<not> is_syn p"
  shows "buf_process_helper p (TCPMimic_new False) = Inl Uninitialised"
proof -
  have t: "14 + unat (ucast (p ! 14 AND 0xf) * 4 :: u32) = tcp_at p" by (simp only: nibble_shift tcp_at_def ihl_of_def)
  have h: "load (Suc 0) p 14 = Inr (p ! 14)" "load (Suc 0) p (tcp_at p + 12) = Inr (p ! (tcp_at p + 12))"
    "load (Suc 0) p (tcp_at p + 13) = Inr (p ! (tcp_at p + 13))"
    "load 2 p 16 = Inr (word_of_bytes (take 2 (drop 16 p)) :: u16)"
    "load 4 p (tcp_at p + 4) = Inr (word_of_bytes (take 4 (drop (tcp_at p + 4) p)) :: u32)"
    using p(1) by (auto intro!: load_byte load_inside simp: pkt_ok_def)
  show ?thesis
    using p(2) h [folded t] unfolding buf_process_helper_def Let_def is_syn_def t [symmetric]
    by (simp add: set_my_seq_def update_my_ack_def TCPMimic_new_def)
qed

lemma wrong_key_faults:
  assumes "sock_state_wf ss" "sysenv_wf env" "file_holds (pcap_file b) (p # ps)" "pkt_ok p" "for_us ss p"
    and "lookup_tuple_of (p @ drop (length p) (stack_garbage env)) (14 + 4 * stack_ihl env) True = Inr key"
    and "\<not> is_syn p" "map_of (tcp_flows b) key = None"
  shows "TCPPcap_get_buf_fr_io env ss (w, b) = Inl Uninitialised"
  using get_at_key [OF assms(1-6), of w] assms(8) buf_process_helper_first [OF assms(4,7)]
  by (auto simp: get_new_def)

text \<open>The keys of the example packets under the right and under a wrong stack byte.\<close>

definition ex_key :: "nat \<Rightarrow> TCPFlowTuple" where
  "ex_key off = \<lparr>my_ip = word_of_bytes [10, 0, 0, 1], their_ip = word_of_bytes [10, 0, 0, 2],
     my_port = word_of_bytes (take 2 (drop off (ex_pkt 0))), their_port = word_of_bytes (take 2 (drop (off + 2) (ex_pkt 0)))\<rparr>"

lemma ex_envs:
  "sysenv_wf ex_env" "sysenv_wf ex_wrong_env" "stack_ihl ex_env = 5" "stack_ihl ex_wrong_env = 0"
  by (simp_all add: sysenv_wf_def stack_ihl_def ex_wrong_env_def ex_env_def)

lemma ex_lookup:
  "lookup_tuple_of (ex_pkt fl @ rest) 34 True = Inr (ex_key 34)"
  "lookup_tuple_of (ex_pkt fl @ rest) 14 True = Inr (ex_key 14)"
  by (simp_all add: lookup_tuple_of_def load_def ex_pkt_def ex_key_def numeral_eq_Suc)

lemma ex_key_neq: "ex_key 34 \<noteq> ex_key 14"
  by code_simp

lemma ex_pkt_ok:
  "pkt_ok (ex_pkt TCP_SYN)" "pkt_ok (ex_pkt TCP_ACK)" "for_us ex_ss (ex_pkt TCP_SYN)" "for_us ex_ss (ex_pkt TCP_ACK)"
  "is_syn (ex_pkt TCP_SYN)" "\<not> is_syn (ex_pkt TCP_ACK)"
  by code_simp+

text \<open>A SYN under a new key goes out and makes the key known; an ACK under a known key is held.\<close>

lemma ex_syn_new:
  assumes "file_holds (pcap_file b) (ex_pkt TCP_SYN # ps)" "map_of (tcp_flows b) k = None" "sysenv_wf env"
    and "lookup_tuple_of (ex_pkt TCP_SYN @ drop 54 (stack_garbage env)) (14 + 4 * stack_ihl env) True = Inr k"
  shows "\<exists>f w' c. TCPPcap_get_buf_fr_io env ex_ss (w, b) =
      Inr (ex_pkt TCP_SYN, w', b\<lparr>pcap_file := f, tcp_flows := tcp_flows b @ [(k, c)]\<rparr>) \<and>
    file_holds f ps \<and> backend_life w' = backend_life w \<and> \<not> handshake_done c"
proof -
  obtain c where c: "buf_process_helper (ex_pkt TCP_SYN) (TCPMimic_new False) = Inr c"
    using buf_process_helper_pkt [OF ex_pkt_ok(1)] ex_pkt_ok(5) by blast
  have h: "\<not> handshake_done c" using buf_process_helper_frame(1) [OF c] by (simp add: TCPMimic_new_def)
  from get_at_key [OF ex_setup(1) assms(3,1) ex_pkt_ok(1,3), of k w] assms(2,4) c h show ?thesis
    by (fastforce simp: get_new_def)
qed

lemma ex_ack_held:
  assumes "file_holds (pcap_file b) (ex_pkt TCP_ACK # ps)" "map_of (tcp_flows b) k = Some c" "sysenv_wf env"
    and "lookup_tuple_of (ex_pkt TCP_ACK @ drop 54 (stack_garbage env)) (14 + 4 * stack_ihl env) True = Inr k"
    and "\<not> handshake_done c"
  shows "\<exists>f w'. TCPPcap_get_buf_fr_io env ex_ss (w, b) =
      Inr ([], w', b\<lparr>pcap_file := f, tcp_flows := AList.update k (put_pkts_to_send_back (ex_pkt TCP_ACK) c) (tcp_flows b)\<rparr>) \<and>
    file_holds f ps \<and> backend_life w' = backend_life w"
proof -
  from get_at_key [OF ex_setup(1) assms(3,1) ex_pkt_ok(2,4), of k w] assms(2,4,5) show ?thesis
    by (fastforce simp: get_existing_def get_handshake_done_def)
qed

text \<open>
  An instance: a trace with a SYN and an ACK of one flow, a wrong stack byte in the first request and
  the right one in the second. The second request faults.
\<close>

lemma ex_backend_holds: "file_holds (pcap_file ex_backend) [ex_pkt TCP_SYN, ex_pkt TCP_ACK]"
  unfolding file_holds_def ex_backend_def ex_file_def
  by (rule exI [of _ pcap_header_bytes], rule exI [of _ "[(0, 0), (1, 0)]"]) (simp add: pcap_header_bytes_def)

lemma replay_faults_example:
  "good_trace ex_ss 5 [ex_pkt TCP_SYN, ex_pkt TCP_ACK] \<and> sysenv_wf ex_wrong_env \<and> env_ok 5 ex_env \<and>
   backend_run ex_ss [GetOp ex_wrong_env, GetOp ex_env] (\<lparr>backend_life = NullPtr, out = []\<rparr>, ex_backend) = Inl Uninitialised"
proof -
  let ?w = "\<lparr>backend_life = NullPtr, out = []\<rparr>"
  have e: "map_of (tcp_flows ex_backend) k = None" for k by (simp add: ex_backend_def)
  obtain f w1 c where 1: "TCPPcap_get_buf_fr_io ex_wrong_env ex_ss (?w, ex_backend) =
      Inr (ex_pkt TCP_SYN, w1, ex_backend\<lparr>pcap_file := f, tcp_flows := tcp_flows ex_backend @ [(ex_key 14, c)]\<rparr>)"
    "file_holds f [ex_pkt TCP_ACK]" "backend_life w1 = NullPtr"
    using ex_syn_new [OF ex_backend_holds e ex_envs(2), of "ex_key 14" ?w] by (auto simp: ex_envs ex_lookup)
  let ?b = "ex_backend\<lparr>pcap_file := f, tcp_flows := tcp_flows ex_backend @ [(ex_key 14, c)]\<rparr>"
  have "TCPPcap_get_buf_fr_io ex_env ex_ss (w1, ?b) = Inl Uninitialised"
    by (rule wrong_key_faults [OF ex_setup(1) ex_envs(1) _ ex_pkt_ok(2,4) _ ex_pkt_ok(6), where key = "ex_key 34"])
      (use 1(2) ex_key_neq in \<open>simp_all add: ex_envs ex_lookup ex_backend_def\<close>)
  with 1(1,3) ex_setup(3,4) ex_envs(2) show ?thesis by simp
qed

text \<open>
  Another instance: a trace with a SYN, an ACK and a SYN of one flow, and a wrong stack byte in the
  third request. The third packet goes out as the first of a new flow and overtakes the second.
\<close>

definition ex_file3 :: cfile where
  "ex_file3 = \<lparr>contents = pcap_header_bytes @
       trace_bytes [(0, 0), (1, 0), (2, 0)] [ex_pkt TCP_SYN, ex_pkt TCP_ACK, ex_pkt TCP_SYN],
     fpos = 24, feof = False, room = 0\<rparr>"

lemma replay_overtakes_example:
  "good_trace ex_ss 5 [ex_pkt TCP_SYN, ex_pkt TCP_ACK, ex_pkt TCP_SYN] \<and>
   (\<exists>s. backend_run ex_ss [GetOp ex_env, GetOp ex_env, GetOp ex_wrong_env]
      (\<lparr>backend_life = NullPtr, out = []\<rparr>, \<lparr>pcap_file = ex_file3, tcp_flows = []\<rparr>) =
      Inr ([ex_pkt TCP_SYN, [], ex_pkt TCP_SYN], s))"
proof -
  let ?w = "\<lparr>backend_life = NullPtr, out = []\<rparr>" and ?b = "\<lparr>pcap_file = ex_file3, tcp_flows = []\<rparr>"
  have h: "file_holds (pcap_file ?b) [ex_pkt TCP_SYN, ex_pkt TCP_ACK, ex_pkt TCP_SYN]"
    unfolding file_holds_def ex_file3_def
    by (rule exI [of _ pcap_header_bytes], rule exI [of _ "[(0, 0), (1, 0), (2, 0)]"]) (simp add: pcap_header_bytes_def)
  have e: "map_of (tcp_flows ?b) k = None" for k by simp
  obtain f1 w1 c where 1: "TCPPcap_get_buf_fr_io ex_env ex_ss (?w, ?b) =
      Inr (ex_pkt TCP_SYN, w1, ?b\<lparr>pcap_file := f1, tcp_flows := [(ex_key 34, c)]\<rparr>)"
    "file_holds f1 [ex_pkt TCP_ACK, ex_pkt TCP_SYN]" "backend_life w1 = NullPtr" "\<not> handshake_done c"
    using ex_syn_new [OF h e ex_envs(1), of "ex_key 34" ?w] by (auto simp: ex_envs ex_lookup)
  let ?b1 = "?b\<lparr>pcap_file := f1, tcp_flows := [(ex_key 34, c)]\<rparr>"
  let ?c = "put_pkts_to_send_back (ex_pkt TCP_ACK) c"
  obtain f2 w2 where 2: "TCPPcap_get_buf_fr_io ex_env ex_ss (w1, ?b1) =
      Inr ([], w2, ?b1\<lparr>pcap_file := f2, tcp_flows := [(ex_key 34, ?c)]\<rparr>)"
    "file_holds f2 [ex_pkt TCP_SYN]" "backend_life w2 = NullPtr"
    using ex_ack_held [of ?b1 "[ex_pkt TCP_SYN]" "ex_key 34" c ex_env w1] 1(2-4) by (auto simp: ex_envs ex_lookup)
  let ?b2 = "?b1\<lparr>pcap_file := f2, tcp_flows := [(ex_key 34, ?c)]\<rparr>"
  obtain w3 b3 where 3: "TCPPcap_get_buf_fr_io ex_wrong_env ex_ss (w2, ?b2) = Inr (ex_pkt TCP_SYN, w3, b3)"
    using ex_syn_new [of ?b2 "[]" "ex_key 14" ex_wrong_env w2] 2(2) ex_key_neq by (auto simp: ex_envs ex_lookup)
  have "good_trace ex_ss 5 [ex_pkt TCP_SYN, ex_pkt TCP_ACK, ex_pkt TCP_SYN]" by code_simp
  with 1(1,3) 2(1,3) 3 show ?thesis by simp
qed

end
