(* ===== verification/Checksum.thy ===== *)
theory Checksum
  imports Netinet
begin

text \<open>
  The checksum functions of \<^verbatim>\<open>src/sim_dpi/testing_utils.cpp\<close>: \<open>csum\<close>,
  \<open>add_tcp_checksum\<close> and \<open>add_ip_checksum\<close>, on the memory their pointers address.

  The reference is the Internet checksum: the one's complement of the one's complement sum
  (end-around carry at every addition) of the 16-bit words, an odd last byte padded with zero.
  \<open>csum\<close> instead adds everything in a \<open>long\<close> and folds twice at the end; it agrees with the
  reference for every buffer of at most 131074 bytes.
\<close>

section \<open>The code\<close>

text \<open>
  \<open>sum\<close> is a \<open>long\<close>; \<open>csum_loop_bound\<close> below shows that it never leaves the range of a
  64-bit \<open>long\<close>, so it is an unbounded integer here. \<open>nbytes\<close> is an \<open>int\<close>.
\<close>

fun csum_loop :: "mem \<Rightarrow> int \<Rightarrow> int \<Rightarrow> (mem \<times> int \<times> int) res" where
  "csum_loop ptr nbytes acc =
     (if nbytes > 1 then
        (case ptr of
           b0 # b1 # rest \<Rightarrow>
             csum_loop rest (nbytes - 2) (acc + uint (word_of_bytes [b0, b1] :: u16))
         | _ \<Rightarrow> Inl OutOfBounds)
      else Inr (ptr, nbytes, acc))"

declare csum_loop.simps [simp del]

definition csum_fold :: "int \<Rightarrow> u16" where
  "csum_fold acc =
     (let acc = drop_bit 16 acc + (acc AND 0xffff);
          acc = acc + drop_bit 16 acc
      in word_of_int (NOT acc))"

definition csum :: "mem \<Rightarrow> int \<Rightarrow> u16 res" where
  "csum ptr nbytes =
     bindE (csum_loop ptr nbytes 0) (\<lambda>(ptr, nbytes, acc).
     bindE (if nbytes = 1 then
              (case ptr of
                 [] \<Rightarrow> Inl OutOfBounds
               | b # _ \<Rightarrow> Inr (acc + uint (word_of_bytes [b, 0] :: u16)))
            else Inr acc) (\<lambda>acc.
     Inr (csum_fold acc)))"

text \<open>
  \<open>tcp_segment\<close> is the memory from the start of the TCP header. The \<open>check\<close> field is at
  offset 16; \<open>doff\<close> is the high half of the byte at offset 12. The length of the segment is a sum of
  32-bit integers; the size of the array \<open>pseudogram\<close> is a sum of type \<open>size_t\<close>, and is converted to
  \<open>int\<close> for the call of \<open>csum\<close>. Where the 32-bit sum wraps, the array has a tail that is never
  written; \<open>csum\<close> is then called for the part before it, so its contents, zero here, do not matter.
\<close>

definition add_tcp_checksum :: "mem \<Rightarrow> u32 \<Rightarrow> u32 \<Rightarrow> u32 \<Rightarrow> mem res" where
  "add_tcp_checksum tcp_segment payload_len source_address dest_address =
     bindE (load 1 tcp_segment 12) (\<lambda>b12 :: u8.
     let tcp_header_len = ucast (high_nibble b12) * 4 :: u32;
         seg_len = unat (tcp_header_len + payload_len);
         gram_len = sizeof_TCPChecksumHeader + unat tcp_header_len + unat payload_len;
         pseudo_header =
           \<lparr>srcAddr = source_address, dstAddr = dest_address, psh_zero = 0,
            psh_protocol = IPPROTO_TCP,
            TCP_len = htons (ucast (tcp_header_len + payload_len))\<rparr>
     in
     bindE (load_bytes seg_len tcp_segment 0) (\<lambda>seg.
     let pseudogram = TCPChecksumHeader_bytes pseudo_header @ seg @
           replicate (gram_len - (sizeof_TCPChecksumHeader + seg_len)) 0 in
     bindE (store pseudogram (sizeof_TCPChecksumHeader + 16) (bytes_of 2 (0 :: u16))) (\<lambda>pseudogram.
     bindE (csum pseudogram (int_of_size gram_len)) (\<lambda>checksum.
     store tcp_segment 16 (bytes_of 2 checksum)))))"

text \<open>\<open>ip_header\<close> is the memory from the start of the IP header; \<open>check\<close> is at offset 10.\<close>

definition add_ip_checksum :: "mem \<Rightarrow> mem res" where
  "add_ip_checksum ip_header =
     bindE (load 1 ip_header 0) (\<lambda>b0 :: u8.
     bindE (csum ip_header (uint (low_nibble b0) * 4)) (\<lambda>checksum.
     store ip_header 10 (bytes_of 2 checksum)))"

section \<open>The reference: one's complement arithmetic\<close>

fun words16 :: "mem \<Rightarrow> int list" where
  "words16 [] = []"
| "words16 [b] = [uint b]"
| "words16 (b0 # b1 # bs) = (uint b0 + 256 * uint b1) # words16 bs"

definition oc_add :: "int \<Rightarrow> int \<Rightarrow> int" where
  "oc_add a b = (let s = a + b in if 0x10000 \<le> s then s - 0xffff else s)"

definition oc_sum :: "int list \<Rightarrow> int" where
  "oc_sum ws = foldr oc_add ws 0"

definition internet_checksum :: "mem \<Rightarrow> u16" where
  "internet_checksum bs = word_of_int (0xffff - oc_sum (words16 bs))"

text \<open>
  The normal form of a one's complement sum: the representative of the residue class modulo
  65535 in \<open>{1..65535}\<close>, and 0 for the empty sum only.
\<close>

definition oc_norm :: "int \<Rightarrow> int" where
  "oc_norm s = (if s = 0 then 0 else (s - 1) mod 0xffff + 1)"

lemma words16_range: "w \<in> set (words16 bs) \<Longrightarrow> 0 \<le> w \<and> w \<le> 0xffff"
proof (induction bs rule: words16.induct)
  case (2 b)
  have "uint b < 256" using uint_lt2p [of b] by simp
  with 2 show ?case by simp
next
  case (3 b0 b1 bs)
  have "uint b0 < 256" "uint b1 < 256" using uint_lt2p [of b0] uint_lt2p [of b1] by simp_all
  with 3 show ?case by auto
qed simp

lemma sum_words16_nonneg: "0 \<le> sum_list (words16 bs)"
  by (rule sum_list_nonneg) (simp add: words16_range)

lemma length_words16: "length (words16 bs) = (length bs + 1) div 2"
  by (induction bs rule: words16.induct) auto

lemma sum_words16_le: "sum_list (words16 bs) \<le> 0xffff * int ((length bs + 1) div 2)"
proof -
  have "sum_list (words16 bs) \<le> sum_list (map (\<lambda>_. 0xffff) (words16 bs))"
    using sum_list_mono [of "words16 bs" "\<lambda>w. w" "\<lambda>_. 0xffff"] words16_range by simp
  then show ?thesis by (simp add: sum_list_triv length_words16)
qed

lemma words16_append: "even (length xs) \<Longrightarrow> words16 (xs @ ys) = words16 xs @ words16 ys"
  by (induction xs rule: words16.induct) auto

lemma oc_norm_range: "0 \<le> s \<Longrightarrow> 0 \<le> oc_norm s \<and> oc_norm s \<le> 0xffff"
proof -
  have "0 \<le> (s - 1) mod 0xffff" "(s - 1) mod 0xffff < 0xffff" by simp_all
  then show ?thesis by (auto simp: oc_norm_def)
qed

lemma oc_norm_add:
  assumes "0 \<le> w" "w \<le> 0xffff" "0 \<le> s"
  shows "oc_add w (oc_norm s) = oc_norm (w + s)"
proof (cases "s = 0")
  case True
  then show ?thesis using assms by (auto simp: oc_add_def oc_norm_def)
next
  case False
  define r where "r = (s - 1) mod 0xffff"
  have r: "0 \<le> r" "r < 0xffff" by (simp_all add: r_def)
  have "(w + s - 1) mod 0xffff = (w + r) mod 0xffff"
    by (simp add: r_def mod_simps algebra_simps)
  also have "\<dots> = (if w + r < 0xffff then w + r else w + r - 0xffff)"
  proof (cases "w + r < 0xffff")
    case True
    then show ?thesis using assms r by simp
  next
    case False
    have "(w + r) mod 0xffff = (w + r - 0xffff) mod 0xffff" by (simp only: minus_mod_self2)
    also have "\<dots> = w + r - 0xffff" using False assms r by (intro mod_pos_pos_trivial) simp_all
    finally show ?thesis using False by simp
  qed
  finally have m: "(w + s - 1) mod 0xffff = (if w + r < 0xffff then w + r else w + r - 0xffff)" .
  have "oc_norm s = r + 1" "oc_norm (w + s) = (w + s - 1) mod 0xffff + 1"
    using False assms by (auto simp: oc_norm_def r_def)
  then show ?thesis using m by (auto simp: oc_add_def Let_def)
qed

lemma oc_sum_norm: "(\<And>w. w \<in> set ws \<Longrightarrow> 0 \<le> w \<and> w \<le> 0xffff) \<Longrightarrow> oc_sum ws = oc_norm (sum_list ws)"
proof (induction ws)
  case Nil
  then show ?case by (simp add: oc_sum_def oc_norm_def)
next
  case (Cons w ws)
  then have "0 \<le> sum_list ws" by (intro sum_list_nonneg) simp
  with Cons show ?case by (simp add: oc_sum_def oc_norm_add)
qed

lemma internet_checksum_norm: "internet_checksum bs = word_of_int (0xffff - oc_norm (sum_list (words16 bs)))"
  by (simp add: internet_checksum_def oc_sum_norm words16_range)

section \<open>The code computes the reference\<close>

text \<open>The accumulator stays far inside a 64-bit \<open>long\<close> for every \<open>int\<close> byte count.\<close>

lemma csum_loop_sum:
  "0 \<le> n \<Longrightarrow> n \<le> int (length m) \<Longrightarrow>
   csum_loop m n acc =
     Inr (drop (2 * (nat n div 2)) m, n mod 2, acc + sum_list (words16 (take (2 * (nat n div 2)) m)))"
proof (induction m n acc rule: csum_loop.induct)
  case (1 ptr nbytes acc)
  show ?case
  proof (cases "nbytes > 1")
    case True
    with "1.prems" obtain b0 b1 rest where p: "ptr = b0 # b1 # rest"
      by (cases ptr rule: words16.cases) auto
    from True have n: "nat nbytes div 2 = Suc (nat (nbytes - 2) div 2)" by linarith
    have "csum_loop ptr nbytes acc =
      csum_loop rest (nbytes - 2) (acc + uint (word_of_bytes [b0, b1] :: u16))"
      using True unfolding p by (subst csum_loop.simps) simp
    also have "\<dots> = Inr (drop (2 * (nat (nbytes - 2) div 2)) rest, (nbytes - 2) mod 2,
        acc + uint (word_of_bytes [b0, b1] :: u16) +
        sum_list (words16 (take (2 * (nat (nbytes - 2) div 2)) rest)))"
      using "1.IH" [OF True p refl] "1.prems" True p by simp
    finally show ?thesis
      unfolding n uint_word_of_2_bytes by (simp add: p minus_mod_self2)
  next
    case False
    with "1.prems" have "nbytes = 0 \<or> nbytes = 1" by linarith
    then show ?thesis by (auto simp: csum_loop.simps [of ptr])
  qed
qed

lemma csum_loop_bound:
  assumes "0 \<le> n" "n \<le> int (length m)" "n < 2 ^ 31" "csum_loop m n 0 = Inr (ptr, k, acc)"
  shows "0 \<le> acc \<and> acc < 2 ^ 47"
proof -
  let ?xs = "take (2 * (nat n div 2)) m"
  have acc: "acc = sum_list (words16 ?xs)"
    using assms csum_loop_sum [OF assms(1,2), of 0] by simp
  have "(length ?xs + 1) div 2 \<le> 2 ^ 30" using assms by auto
  then have "0xffff * int ((length ?xs + 1) div 2) \<le> 0xffff * 2 ^ 30" by simp
  then have "acc \<le> 0xffff * 2 ^ 30" using sum_words16_le [of ?xs] acc by linarith
  then show ?thesis using acc sum_words16_nonneg by simp
qed

lemma csum_sum:
  assumes "0 \<le> n" "n \<le> int (length m)"
  shows "csum m n = Inr (csum_fold (sum_list (words16 (take (nat n) m))))"
proof (cases "even (nat n)")
  case True
  then have "2 * (nat n div 2) = nat n" "n mod 2 = 0" using assms by (simp_all add: even_nat_iff)
  then show ?thesis by (simp add: csum_def csum_loop_sum [OF assms])
next
  case False
  then obtain j where j: "nat n = Suc (2 * j)" by (metis oddE Suc_eq_plus1)
  then have n: "n = 2 * int j + 1" by linarith
  have l: "2 * j < length m" using assms n by linarith
  then have m: "drop (2 * j) m = m ! (2 * j) # drop (Suc (2 * j)) m"
    by (simp add: Cons_nth_drop_Suc)
  have "uint (word_of_bytes [m ! (2 * j), 0] :: u16) = uint (m ! (2 * j))"
    unfolding uint_word_of_2_bytes by simp
  moreover have "words16 (take (nat n) m) = words16 (take (2 * j) m) @ [uint (m ! (2 * j))]"
    using l by (simp add: j take_Suc_conv_app_nth words16_append)
  moreover have "n mod 2 = 1" by (simp add: n)
  ultimately show ?thesis
    by (simp add: csum_def csum_loop_sum [OF assms] m j del: word_of_bytes.simps)
qed

lemma and_0xffff: "(s :: int) AND 0xffff = s mod 0x10000"
  using take_bit_eq_mask [of 16 s] by (simp add: mask_eq_exp_minus_1 take_bit_eq_mod)

lemma csum_fold_norm:
  assumes "0 \<le> s" "s < 2 ^ 32"
  shows "csum_fold s = word_of_int (0xffff - oc_norm s)"
proof -
  define q r f where "q = s div 0x10000" and "r = s mod 0x10000" and "f = q + r"
  have s: "s = f + 0xffff * q" by (simp add: q_def r_def f_def)
  have qr: "0 \<le> q" "q < 0x10000" "0 \<le> r" "r < 0x10000"
    using assms by (simp_all add: q_def r_def div_int_pos_iff pos_imp_zdiv_nonneg_iff)
  have "s - 1 = f - 1 + 0xffff * q" by (simp add: s)
  then have m: "(s - 1) mod 0xffff = (f - 1) mod 0xffff" by (simp only: mod_mult_self2)
  have z: "s = 0 \<longleftrightarrow> f = 0" using qr by (simp add: s f_def) linarith
  have n: "oc_norm s = (if f < 0x10000 then f else f - 0xffff)"
  proof (cases "f < 0x10000")
    case True
    then show ?thesis using qr m z by (auto simp: oc_norm_def f_def)
  next
    case False
    have "(f - 1) mod 0xffff = (f - 1 - 0xffff) mod 0xffff" by (simp only: minus_mod_self2)
    also have "\<dots> = f - 1 - 0xffff"
      using False qr by (intro mod_pos_pos_trivial) (simp_all add: f_def)
    finally show ?thesis using False m z by (simp add: oc_norm_def)
  qed
  have d: "f div 0x10000 = (if f < 0x10000 then 0 else 1)"
    using qr by (auto simp: f_def div_pos_pos_trivial)
  have "csum_fold s = word_of_int (- 1 - (f + f div 0x10000))"
    by (simp add: csum_fold_def Let_def and_0xffff q_def r_def f_def drop_bit_eq_div not_int_def)
  also have "\<dots> = word_of_int (0xffff - oc_norm s)"
    unfolding n d by (simp add: word_of_int_eq_iff take_bit_eq_mod mod_eq_dvd_iff)
  finally show ?thesis .
qed

lemma csum_reference:
  assumes "0 \<le> n" "n \<le> int (length m)" "n \<le> 131074"
  shows "csum m n = Inr (internet_checksum (take (nat n) m))"
proof -
  let ?s = "sum_list (words16 (take (nat n) m))"
  have "(length (take (nat n) m) + 1) div 2 \<le> 65537" using assms by auto
  then have "0xffff * int ((length (take (nat n) m) + 1) div 2) \<le> 0xffff * 65537" by simp
  then have "?s \<le> 0xffff * 65537" using sum_words16_le [of "take (nat n) m"] by linarith
  then have "?s < 2 ^ 32" by simp
  then show ?thesis
    by (simp add: csum_sum assms csum_fold_norm sum_words16_nonneg internet_checksum_norm)
qed

lemma csum_loop_outside:
  "0 \<le> n \<Longrightarrow> int (length m) < n \<Longrightarrow>
   csum_loop m n acc = Inl OutOfBounds \<or> (\<exists>acc'. csum_loop m n acc = Inr ([], 1, acc'))"
proof (induction m n acc rule: csum_loop.induct)
  case (1 m n acc)
  show ?case
  proof (cases "n > 1")
    case True
    show ?thesis
    proof (cases m rule: words16.cases)
      case (3 b0 b1 rest)
      have "csum_loop m n acc = csum_loop rest (n - 2) (acc + uint (word_of_bytes [b0, b1] :: u16))"
        using True unfolding 3 by (subst csum_loop.simps) simp
      with "1.IH" [OF True 3 refl] "1.prems" True 3 show ?thesis by simp
    qed (use True in \<open>simp_all add: csum_loop.simps [of "[]"] csum_loop.simps [of "[_]"]\<close>)
  next
    case False
    with "1.prems" have "m = []" "n = 1" by (cases m, auto)
    then show ?thesis by (simp add: csum_loop.simps [of "[]"])
  qed
qed

text \<open>
  C11: \<open>csum\<close> reads exactly the bytes it is told to: it is out of bounds if and only if the buffer
  has fewer than \<open>nbytes\<close> bytes. Otherwise the loop ends with at most one byte left, and for every
  \<open>nbytes\<close> that an \<open>int\<close> can hold the sum, which only grows, is far from leaving the range of a
  64-bit \<open>long\<close>.
\<close>

theorem csum_bounds:
  assumes "0 \<le> n" "n < 2 ^ 31"
  shows "(csum m n = Inl OutOfBounds \<longleftrightarrow> int (length m) < n) \<and>
    (n \<le> int (length m) \<longrightarrow>
      (\<exists>ptr acc. csum_loop m n 0 = Inr (ptr, n mod 2, acc) \<and> 0 \<le> acc \<and> acc < 2 ^ 47))"
proof (cases "n \<le> int (length m)")
  case True
  then obtain ptr acc where "csum_loop m n 0 = Inr (ptr, n mod 2, acc)"
    using csum_loop_sum [OF assms(1) True, of 0] by simp
  with True csum_loop_bound [OF assms(1) True assms(2)] csum_sum [OF assms(1) True] show ?thesis by auto
next
  case False
  with csum_loop_outside [OF assms(1), of m 0] have "csum m n = Inl OutOfBounds" by (auto simp: csum_def)
  with False show ?thesis by simp
qed

theorem csum_bounds_witness:
  "csum [1, 2] 3 = Inl OutOfBounds \<and>
   (\<exists>ptr acc. csum_loop [1, 2, 3] 3 0 = Inr (ptr, 3 mod 2, acc) \<and> 0 \<le> acc \<and> acc < 2 ^ 47)"
  using csum_bounds [of 3 "[1, 2]"] csum_bounds [of 3 "[1, 2, 3]"] by simp

text \<open>
  C10: for every buffer of at most 131074 bytes that the pointer really addresses, \<open>csum\<close>
  returns the Internet checksum of exactly the first \<open>nbytes\<close> bytes, odd lengths included.
\<close>

theorem csum_internet_checksum:
  assumes "0 \<le> n" "n \<le> int (length m)" "n \<le> 131074"
  shows "csum m n = Inr (internet_checksum (take (nat n) m))"
  using assms by (rule csum_reference)

theorem csum_internet_checksum_witness:
  "csum [0x45, 0x00, 0x1c] 3 = Inr (internet_checksum [0x45, 0x00, 0x1c])"
  using csum_internet_checksum [of 3 "[0x45, 0x00, 0x1c]"] by (simp add: numeral_3_eq_3)

subsection \<open>Inserting a checksum makes a buffer verify\<close>

lemma sum_words16_bytes_of_2: "sum_list (words16 (bytes_of 2 c)) = uint (c :: u16)"
proof -
  have b: "bytes_of 2 c = [byte_at 0 c, byte_at 1 c]" by (simp add: bytes_of_def numeral_2_eq_2)
  have "uint c = uint (word_of_bytes (bytes_of 2 c) :: u16)" by simp
  also have "\<dots> = uint (byte_at 0 c) + 256 * uint (byte_at 1 c)"
    unfolding b by (rule uint_word_of_2_bytes)
  finally show ?thesis by (simp add: b)
qed

lemma sum_words16_splice:
  assumes "even off" "off + 2 \<le> length m"
  shows "sum_list (words16 (take off m @ bytes_of 2 c @ drop (off + 2) m)) =
    sum_list (words16 (take off m)) + uint (c :: u16) + sum_list (words16 (drop (off + 2) m))"
  using assms by (simp add: words16_append sum_words16_bytes_of_2 del: word_of_bytes.simps)

lemma internet_checksum_splice:
  assumes "even off" "off + 2 \<le> length m"
    and c: "c = internet_checksum (take off m @ bytes_of 2 (0 :: u16) @ drop (off + 2) m)"
  shows "internet_checksum (take off m @ bytes_of 2 c @ drop (off + 2) m) = 0"
proof -
  define s where "s = sum_list (words16 (take off m)) + sum_list (words16 (drop (off + 2) m))"
  have s: "0 \<le> s" by (simp add: s_def sum_words16_nonneg)
  have r: "0 \<le> oc_norm s" "oc_norm s \<le> 0xffff" using oc_norm_range [OF s] by auto
  have "word_of_int (0xffff - oc_norm s) = c"
    using c unfolding internet_checksum_norm sum_words16_splice [OF assms(1,2)]
    by (simp add: s_def)
  then have u: "uint c = 0xffff - oc_norm s"
    by (rule word_of_int_inverse) (use r in simp_all)
  have n: "oc_norm (s + uint c) = 0xffff"
  proof (cases "s = 0")
    case True
    then show ?thesis using u by (simp add: oc_norm_def)
  next
    case False
    define k where "k = (s - 1) div 0xffff"
    have "s - 1 = k * 0xffff + (oc_norm s - 1)"
      using False div_mult_mod_eq [of "s - 1" "0xffff"] by (simp add: k_def oc_norm_def)
    then have "s + uint c - 1 = 0xfffe + 0xffff * k" by (simp add: u)
    then have "(s + uint c - 1) mod 0xffff = 0xfffe mod 0xffff" by (simp only: mod_mult_self2)
    moreover have "s + uint c \<noteq> 0" using False s by (simp add: u) (use r in linarith)
    ultimately show ?thesis by (simp add: oc_norm_def)
  qed
  have e: "sum_list (words16 (take off m)) + uint c + sum_list (words16 (drop (off + 2) m))
    = s + uint c" by (simp add: s_def)
  show ?thesis
    unfolding internet_checksum_norm sum_words16_splice [OF assms(1,2)] e n by simp
qed

lemma take_splice:
  assumes "off + length x \<le> n" "n \<le> length m"
  shows "take n (take off m @ x @ drop (off + length x) m) =
    take off (take n m) @ x @ drop (off + length x) (take n m)"
  using assms by (simp add: min_absorb1 drop_take)

lemma splice_same:
  assumes "take k (drop off m) = x"
  shows "take off m @ x @ drop (off + k) m = m"
  using take_drop_glue [of "off + k" off k m] assms by simp

text \<open>
  C13: \<open>add_ip_checksum\<close> on a header whose \<open>check\<close> field is zero writes only that field, and
  the header then verifies: its checksum over the \<open>4 * ihl\<close> bytes is zero.
\<close>

theorem add_ip_checksum_verifies:
  assumes len: "4 * unat (low_nibble (m ! 0)) = hlen" "20 \<le> hlen" "hlen \<le> length m"
    and zero: "take 2 (drop 10 m) = bytes_of 2 (0 :: u16)"
  shows "\<exists>m'. add_ip_checksum m = Inr m' \<and> csum m' (int hlen) = Inr 0 \<and>
    length m' = length m \<and> take 10 m' = take 10 m \<and> drop 12 m' = drop 12 m"
proof -
  let ?c = "internet_checksum (take hlen m)"
  let ?m' = "take 10 m @ bytes_of 2 ?c @ drop 12 m"
  have "0 < length m" using len by linarith
  then have m0: "load 1 m 0 = Inr (m ! 0)" using load_byte [of 0 m] by simp
  have n: "uint (low_nibble (m ! 0)) * 4 = int hlen" using arg_cong [OF len(1), of int] by simp
  have h: "hlen \<le> 60" using unat_nibble_less [of "low_nibble (m ! 0)"] len(1) by simp
  have c: "csum m (int hlen) = Inr ?c" using csum_reference [of "int hlen" m] len h by simp
  have r: "add_ip_checksum m = Inr ?m'"
    unfolding add_ip_checksum_def m0 bindE_Inr n c using len by (simp add: store_def)
  have t: "take hlen ?m' = take 10 (take hlen m) @ bytes_of 2 ?c @ drop (10 + 2) (take hlen m)"
    using take_splice [of 10 "bytes_of 2 ?c" hlen m] len by simp
  have "take 2 (drop 10 (take hlen m)) = bytes_of 2 (0 :: u16)"
    using zero len by (simp add: drop_take)
  from splice_same [OF this]
  have c0: "?c = internet_checksum (take 10 (take hlen m) @ bytes_of 2 (0 :: u16) @ drop (10 + 2) (take hlen m))"
    by (simp only:)
  have "10 + 2 \<le> length (take hlen m)" using len(2,3) by simp
  then have "internet_checksum (take hlen ?m') = 0"
    unfolding t by (intro internet_checksum_splice [OF _ _ c0]) simp_all
  moreover have "csum ?m' (int hlen) = Inr (internet_checksum (take (nat (int hlen)) ?m'))"
    by (rule csum_reference) (use len(2,3) h in simp_all)
  ultimately have "csum ?m' (int hlen) = Inr 0" by (simp only: nat_int)
  with r show ?thesis using len(2,3) by (intro exI [of _ ?m']) simp
qed

theorem add_ip_checksum_verifies_witness:
  "\<exists>m'. add_ip_checksum (0x45 # replicate 19 0) = Inr m' \<and> csum m' 20 = Inr 0"
proof -
  have "4 * unat (low_nibble ((0x45 # replicate 19 0) ! 0)) = 20" by code_simp
  moreover have "take 2 (drop 10 (0x45 # replicate 19 0)) = bytes_of 2 (0 :: u16)" by code_simp
  ultimately show ?thesis
    using add_ip_checksum_verifies [of "0x45 # replicate 19 0" 20] by auto
qed

text \<open>
  The field must be zero beforehand, which \<open>add_ip_checksum\<close> does not do itself: on a header
  that already verifies it writes a zero checksum.
\<close>

lemma add_ip_checksum_again:
  assumes "m \<noteq> []" "csum m (uint (low_nibble (m ! 0)) * 4) = Inr 0"
  shows "add_ip_checksum m = store m 10 (bytes_of 2 (0 :: u16))"
  using assms by (simp add: add_ip_checksum_def load_byte)

text \<open>
  The pseudo header and the segment as a receiver of the segment checks them.
\<close>

definition tcp_pseudogram :: "u32 \<Rightarrow> u32 \<Rightarrow> mem \<Rightarrow> mem" where
  "tcp_pseudogram src dst seg =
     TCPChecksumHeader_bytes
       \<lparr>srcAddr = src, dstAddr = dst, psh_zero = 0, psh_protocol = IPPROTO_TCP,
        TCP_len = htons (of_nat (length seg))\<rparr> @ seg"

text \<open>The number of bytes that \<open>csum\<close> is asked to read never reaches the tail of the array.\<close>

lemma pseudogram_tail_unread:
  "int_of_size (sizeof_TCPChecksumHeader + unat a + unat b) \<le> int (sizeof_TCPChecksumHeader + unat (a + b :: u32))"
proof -
  have "(of_nat (sizeof_TCPChecksumHeader + unat a + unat b) :: u32) =
      of_nat (sizeof_TCPChecksumHeader + unat (a + b))" by simp
  then have "int_of_size (sizeof_TCPChecksumHeader + unat a + unat b) =
      int_of_size (sizeof_TCPChecksumHeader + unat (a + b))" by (simp only: int_of_size_def)
  then show ?thesis using int_of_size_le by metis
qed

lemma add_tcp_checksum_eq:
  fixes m :: mem and plen src dst :: u32
  assumes hlen: "4 * unat (high_nibble (m ! 12)) = hlen" and slen: "hlen + unat plen = slen"
    and len: "20 \<le> hlen" "slen \<le> length m" "slen \<le> 65535"
  shows "add_tcp_checksum m plen src dst =
    Inr (take 16 m @ bytes_of 2 (internet_checksum
      (tcp_pseudogram src dst (take 16 (take slen m) @ bytes_of 2 (0 :: u16) @ drop 18 (take slen m))))
      @ drop 18 m)"
proof -
  let ?h = "high_nibble (m ! 12)"
  have l: "20 \<le> slen" using len slen by linarith
  have b: "load 1 m 12 = Inr (m ! 12)" using len l load_byte [of 12 m] by simp
  have "unat ?h < 16" by (rule unat_nibble_less)
  then have "unat (ucast ?h :: u32) = unat ?h"
    by (simp add: unsigned_ucast_eq take_bit_nat_eq_self)
  then have uh: "unat (ucast ?h * 4 :: u32) = hlen"
    using \<open>unat ?h < 16\<close> hlen by (simp add: unat_word_ariths)
  have us: "unat (ucast ?h * 4 + plen) = slen"
    using len(3) slen unat_word_ariths(1) [of "ucast ?h * 4" plen] by (simp add: uh)
  have cl: "ucast (ucast ?h * 4 + plen :: u32) = (of_nat slen :: u16)"
    using us by (metis of_nat_unat)
  let ?seg = "take 16 (take slen m) @ bytes_of 2 (0 :: u16) @ drop 18 (take slen m)"
  let ?ph = "TCPChecksumHeader_bytes \<lparr>srcAddr = src, dstAddr = dst, psh_zero = 0,
        psh_protocol = IPPROTO_TCP, TCP_len = htons (of_nat slen)\<rparr>"
  have ls: "length ?seg = slen" using len l by simp
  have ld: "load_bytes slen m 0 = Inr (take slen m)" using len by (simp add: load_bytes_def)
  have st: "store (?ph @ take slen m) (sizeof_TCPChecksumHeader + 16) (bytes_of 2 (0 :: u16)) =
      Inr (?ph @ ?seg)"
    using len l by (simp add: store_def)
  have gl: "sizeof_TCPChecksumHeader + unat (ucast ?h * 4 :: u32) + unat plen = sizeof_TCPChecksumHeader + slen"
    using uh slen by simp
  have tl: "?ph @ take slen m @ replicate (sizeof_TCPChecksumHeader + slen - (sizeof_TCPChecksumHeader + slen)) 0 =
      ?ph @ take slen m" by simp
  have cs: "csum (?ph @ ?seg) (int_of_size (sizeof_TCPChecksumHeader + slen)) = Inr (internet_checksum (?ph @ ?seg))"
    using csum_reference [of "int (12 + slen)" "?ph @ ?seg"] len l ls by simp
  have sm: "store m 16 (bytes_of 2 c) = Inr (take 16 m @ bytes_of 2 c @ drop 18 m)" for c :: u16
    using len l by (simp add: store_def)
  show ?thesis
    unfolding add_tcp_checksum_def b bindE_Inr Let_def us gl cl ld bindE_Inr tl st cs sm tcp_pseudogram_def ls ..
qed

text \<open>
  C12: \<open>add_tcp_checksum\<close> replaces whatever is in the \<open>check\<close> field (the hardware's value), and
  nothing else, by a value for which pseudo header, TCP header and payload verify.
\<close>

theorem add_tcp_checksum_verifies:
  assumes hlen: "4 * unat (high_nibble (m ! 12)) = hlen" and slen: "hlen + unat plen = slen"
    and len: "20 \<le> hlen" "slen \<le> length m" "slen \<le> 65535"
  shows "\<exists>m'. add_tcp_checksum m plen src dst = Inr m' \<and>
    internet_checksum (tcp_pseudogram src dst (take slen m')) = 0 \<and>
    length m' = length m \<and> take 16 m' = take 16 m \<and> drop 18 m' = drop 18 m"
proof -
  let ?s = "take slen m"
  let ?c = "internet_checksum (tcp_pseudogram src dst (take 16 ?s @ bytes_of 2 (0 :: u16) @ drop 18 ?s))"
  let ?m' = "take 16 m @ bytes_of 2 ?c @ drop 18 m"
  have l: "20 \<le> slen" using len slen by linarith
  have t: "take slen ?m' = take 16 ?s @ bytes_of 2 ?c @ drop 18 ?s"
    using take_splice [of 16 "bytes_of 2 ?c" slen m] len l by simp
  let ?g = "tcp_pseudogram src dst ?s"
  have g: "tcp_pseudogram src dst (take 16 ?s @ bytes_of 2 c @ drop 18 ?s) =
      take 28 ?g @ bytes_of 2 c @ drop (28 + 2) ?g" for c :: u16
    using len l by (simp add: tcp_pseudogram_def)
  have c0: "?c = internet_checksum (take 28 ?g @ bytes_of 2 (0 :: u16) @ drop (28 + 2) ?g)"
    by (simp only: g)
  have "tcp_pseudogram src dst (take slen ?m') = take 28 ?g @ bytes_of 2 ?c @ drop (28 + 2) ?g"
    unfolding t by (rule g)
  moreover have "28 + 2 \<le> length ?g" using len l by (simp add: tcp_pseudogram_def)
  ultimately have "internet_checksum (tcp_pseudogram src dst (take slen ?m')) = 0"
    using internet_checksum_splice [OF _ _ c0] by (simp only:) simp
  moreover have "add_tcp_checksum m plen src dst = Inr ?m'"
    by (rule add_tcp_checksum_eq [OF hlen slen len])
  ultimately show ?thesis using len l by (intro exI [of _ ?m']) simp
qed

theorem add_tcp_checksum_verifies_witness:
  "\<exists>m'. add_tcp_checksum (replicate 12 0 @ [0x50] @ replicate 8 7) 1 1 2 = Inr m' \<and>
     internet_checksum (tcp_pseudogram 1 2 (take 21 m')) = 0"
proof -
  have "4 * unat (high_nibble ((replicate 12 0 @ [0x50] @ replicate 8 7) ! 12)) = 20" by code_simp
  moreover have "20 + unat (1 :: u32) = 21" by simp
  ultimately show ?thesis
    using add_tcp_checksum_verifies [of "replicate 12 0 @ [0x50] @ replicate 8 7" 20 1 21 1 2]
    by auto
qed

end
