(* ===== verification/Convert.thy ===== *)
theory Convert
  imports Checksum
begin

text \<open>
  The header conversions and fillers of \<^verbatim>\<open>src/sim_dpi/testing_utils.cpp\<close>: between the internal
  header struct and the wire format, between simulator bit vectors and header structs, and the
  construction of IP and TCP headers.

  A bit vector \<open>svBitVecVal *\<close> is a list of 32-bit words, the least significant first; an index
  outside it is a fault. Assigning to a bit field keeps the low bits.
\<close>

section \<open>Internal struct and wire struct\<close>

definition convert_tcp_header_to_external :: "tcp_header \<Rightarrow> tcphdr" where
  "convert_tcp_header_to_external internal_header =
     (let wire_header = tcphdr_of_bytes (tcp_header_bytes internal_header);
          wire_header = wire_header\<lparr>source := htons (source wire_header)\<rparr>;
          wire_header = wire_header\<lparr>dest := htons (dest wire_header)\<rparr>;
          wire_header = wire_header\<lparr>seq := htonl (seq wire_header)\<rparr>;
          wire_header = wire_header\<lparr>ack_seq := htonl (ack_seq wire_header)\<rparr>
      in wire_header\<lparr>window := htons 5840\<rparr>)"

definition convert_ip_header_to_external :: "iphdr \<Rightarrow> iphdr" where
  "convert_ip_header_to_external internal_header =
     (let wire_header = iphdr_of_bytes (iphdr_bytes internal_header)
      in wire_header\<lparr>tot_len := htons (tot_len wire_header)\<rparr>)"

definition convert_external_to_tcp_header :: "tcphdr \<Rightarrow> tcp_header" where
  "convert_external_to_tcp_header wire_header =
     (let internal_header = tcp_header_of_bytes (tcphdr_bytes wire_header);
          internal_header = internal_header\<lparr>ack_num := ntohl (ack_num internal_header)\<rparr>;
          internal_header = internal_header\<lparr>seq_num := ntohl (seq_num internal_header)\<rparr>;
          internal_header = internal_header\<lparr>src_port := ntohs (src_port internal_header)\<rparr>;
          internal_header = internal_header\<lparr>dst_port := ntohs (dst_port internal_header)\<rparr>;
          internal_header = internal_header\<lparr>win_size := ntohs (win_size internal_header)\<rparr>
      in internal_header\<lparr>hdrlen_rsvd_nonce := push_bit 4 5\<rparr>)"

section \<open>Struct filling\<close>

text \<open>
  The header's addresses are whatever they were before. The total length is computed in 64 bits and
  truncated to 16; so is the 32-bit \<open>htonl (54321)\<close> when it is assigned to the identification.
\<close>

definition fill_ip_header :: "iphdr \<Rightarrow> u32 \<Rightarrow> iphdr res" where
  "fill_ip_header ip_header payload_len =
     (let ip_header = ip_header\<lparr>ihl := 5, version := 4, tos := 0,
            tot_len := htons (ucast (of_nat sizeof_iphdr + of_nat sizeof_tcphdr + ucast payload_len :: u64)),
            ipid := ucast (htonl 54321), frag_off := 0, ttl := 255, protocol := IPPROTO_TCP,
            ip_check := 0\<rparr>
      in bindE (csum (iphdr_bytes ip_header) (uint (ihl ip_header) * 4)) (\<lambda>checksum.
         Inr (ip_header\<lparr>ip_check := checksum\<rparr>)))"

definition fill_tcp_header ::
  "sock_state \<Rightarrow> tcphdr \<Rightarrow> u32 \<Rightarrow> u32 \<Rightarrow> u8 \<Rightarrow> u8 \<Rightarrow> sockaddr_in \<Rightarrow> tcphdr res" where
  "fill_tcp_header state tcp_hdr new_seq new_ack syn_bit ack_bit dest_address =
     (let tcp_hdr = tcp_hdr\<lparr>source := htons (sin_port (source_addr state)),
            dest := htons (sin_port dest_address), seq := htonl new_seq, ack_seq := htonl new_ack,
            res1 := 0, doff := 5, fin := False, syn := bit syn_bit 0, rst := False, psh := False,
            ack := bit ack_bit 0, urg := False, res2 := 0, window := htons 5840, tcp_check := 0,
            urg_ptr := 0\<rparr>;
          pseudo = \<lparr>srcAddr = s_addr (source_addr state), dstAddr = s_addr dest_address,
            psh_zero = 0, psh_protocol = IPPROTO_TCP, TCP_len = htons (of_nat sizeof_tcphdr)\<rparr>;
          pseudogram = TCPChecksumHeader_bytes pseudo @ tcphdr_bytes tcp_hdr
      in bindE (csum pseudogram (int (sizeof_TCPChecksumHeader + sizeof_tcphdr))) (\<lambda>checksum.
         Inr (tcp_hdr\<lparr>tcp_check := checksum\<rparr>)))"

section \<open>Bit vectors and structs\<close>

definition vec_at :: "u32 list \<Rightarrow> nat \<Rightarrow> u32 res" where
  "vec_at v i = (if i < length v then Inr (v ! i) else Inl OutOfBounds)"

definition bitvec_to_tcp_header :: "u32 list \<Rightarrow> tcp_header res" where
  "bitvec_to_tcp_header bitvec =
     bindE (vec_at bitvec 4) (\<lambda>v4.
     bindE (vec_at bitvec 3) (\<lambda>v3.
     bindE (vec_at bitvec 2) (\<lambda>v2.
     bindE (vec_at bitvec 1) (\<lambda>v1.
     bindE (vec_at bitvec 0) (\<lambda>v0.
     Inr \<lparr>src_port = ucast (drop_bit 16 v4), dst_port = ucast (v4 AND 0xFFFF),
          seq_num = v3, ack_num = v2,
          hdrlen_rsvd_nonce = ucast (drop_bit 24 v1), tcp_flags = ucast (drop_bit 16 v1 AND 0xFF),
          win_size = ucast (v1 AND 0xFFFF),
          chksum = ntohs (ucast (drop_bit 16 v0)), urg_pointer = ucast (v0 AND 0xFFFF)\<rparr>)))))"

definition bitvec_to_ip_header :: "u32 list \<Rightarrow> iphdr res" where
  "bitvec_to_ip_header bitvec =
     bindE (vec_at bitvec 4) (\<lambda>v4.
     bindE (vec_at bitvec 3) (\<lambda>v3.
     bindE (vec_at bitvec 2) (\<lambda>v2.
     bindE (vec_at bitvec 1) (\<lambda>v1.
     bindE (vec_at bitvec 0) (\<lambda>v0.
     Inr \<lparr>ihl = ucast (drop_bit 28 v4 AND 0xF), version = ucast (drop_bit 24 v4 AND 0xF),
          tos = ucast (drop_bit 16 v4 AND 0xFF), tot_len = ucast (v4 AND 0xFFFF),
          ipid = ucast (drop_bit 16 v3 AND 0xFFFF), frag_off = ucast (v3 AND 0xFFFF),
          ttl = ucast (drop_bit 24 v2 AND 0xFF), protocol = ucast (drop_bit 16 v2 AND 0xFF),
          ip_check = ucast (v2 AND 0xFFFF), saddr = htonl v1, daddr = htonl v0\<rparr>)))))"

text \<open>
  The IP header of the hardware, \<open>ip_pkt_hdr\<close> of \<^verbatim>\<open>src/include/packet_struct_pkg.sv\<close>, with the field
  widths of \<^verbatim>\<open>src/include/packet_defs.vh\<close>. A packed struct of SystemVerilog is the concatenation of
  its fields, the first one most significant; across the DPI a vector is an array of 32-bit words,
  the least significant first.
\<close>

record ip_pkt_hdr =
  sv_ip_version :: "4 word"
  sv_ip_hdr_len :: "4 word"
  sv_tos :: u8
  sv_tot_len :: u16
  sv_id :: u16
  sv_frag_offset :: u16
  sv_ttl :: u8
  sv_protocol_no :: u8
  sv_chksum :: u16
  sv_source_addr :: u32
  sv_dest_addr :: u32

definition ip_pkt_hdr_bits :: "ip_pkt_hdr \<Rightarrow> 160 word" where
  "ip_pkt_hdr_bits h =
     push_bit 156 (ucast (sv_ip_version h)) OR push_bit 152 (ucast (sv_ip_hdr_len h)) OR
     push_bit 144 (ucast (sv_tos h)) OR push_bit 128 (ucast (sv_tot_len h)) OR
     push_bit 112 (ucast (sv_id h)) OR push_bit 96 (ucast (sv_frag_offset h)) OR
     push_bit 88 (ucast (sv_ttl h)) OR push_bit 80 (ucast (sv_protocol_no h)) OR
     push_bit 64 (ucast (sv_chksum h)) OR push_bit 32 (ucast (sv_source_addr h)) OR
     ucast (sv_dest_addr h)"

definition svBitVecVal_of :: "160 word \<Rightarrow> u32 list" where
  "svBitVecVal_of v = map (\<lambda>i. ucast (drop_bit (32 * i) v)) [0..<5]"

definition tcp_header_to_bitvec :: "tcp_header \<Rightarrow> u32 list \<Rightarrow> u32 list res" where
  "tcp_header_to_bitvec h bitvec =
     (if length bitvec < 5 then Inl OutOfBounds
      else Inr (bitvec
        [4 := push_bit 16 (ucast (src_port h)) + ucast (dst_port h),
         3 := seq_num h,
         2 := ack_num h,
         1 := push_bit 24 (ucast (hdrlen_rsvd_nonce h)) + push_bit 16 (ucast (tcp_flags h)) + ucast (win_size h),
         0 := push_bit 16 (ucast (chksum h)) + ucast (urg_pointer h)]))"

definition data_swizzle_64_bitvec_to_c_buf :: "u32 list \<Rightarrow> mem \<Rightarrow> mem res" where
  "data_swizzle_64_bitvec_to_c_buf data_input dest_buf =
     bindE (vec_at data_input 1) (\<lambda>low_addr_bytes.
     bindE (vec_at data_input 0) (\<lambda>high_addr_bytes.
     let t = bytes_of 4 low_addr_bytes; t' = bytes_of 4 high_addr_bytes
     in store dest_buf 0 [t ! 3, t ! 2, t ! 1, t ! 0, t' ! 3, t' ! 2, t' ! 1, t' ! 0]))"

definition data_swizzle_64_c_buf_to_dpi_longint :: "mem \<Rightarrow> u64 res" where
  "data_swizzle_64_c_buf_to_dpi_longint data_input =
     bindE (load_bytes 8 data_input 0) (\<lambda>bs.
     Inr (word_of_bytes (map (\<lambda>i. bs ! (7 - i)) [0..<8])))"

section \<open>The wire format\<close>

lemma flag_byte_updates [simp]:
  "flag_byte (h\<lparr>source := a\<rparr>) = flag_byte h" "flag_byte (h\<lparr>dest := a\<rparr>) = flag_byte h"
  "flag_byte (h\<lparr>seq := c\<rparr>) = flag_byte h" "flag_byte (h\<lparr>ack_seq := c\<rparr>) = flag_byte h"
  "flag_byte (h\<lparr>window := a\<rparr>) = flag_byte h" "flag_byte (h\<lparr>tcp_check := a\<rparr>) = flag_byte h"
  by (simp_all add: flag_byte_def)

lemma bytes_of_1 [simp]: "bytes_of (Suc 0) (b :: u8) = [b]"
  by (simp add: bytes_of_def byte_at_def)

text \<open>Ports, sequence numbers and window are big endian, the rest is copied byte by byte.\<close>

lemma tcphdr_bytes_external:
  "tcphdr_bytes (convert_tcp_header_to_external h) =
     rev (bytes_of 2 (src_port h)) @ rev (bytes_of 2 (dst_port h)) @
     rev (bytes_of 4 (seq_num h)) @ rev (bytes_of 4 (ack_num h)) @
     [hdrlen_rsvd_nonce h, tcp_flags h] @ rev (bytes_of 2 (5840 :: u16)) @
     bytes_of 2 (chksum h) @ bytes_of 2 (urg_pointer h)"
  by (simp add: convert_tcp_header_to_external_def Let_def tcphdr_bytes_def flag_byte_tcphdr_of_bytes)
    (simp add: tcphdr_of_bytes_def tcp_header_bytes_def Let_def codec_simps)

text \<open>
  C24: a header converted to wire format and back is the same header except for what the conversions
  overwrite: the window is 5840, and the whole byte of the header length, the reserved bits and the
  nonce is 0x50, that is a header length of five words and the other bits clear. In particular
  sequence and acknowledgement number come back unchanged: neither conversion adds one to them,
  although the comments of \<open>convert_external_to_tcp_header\<close> say so.
\<close>

theorem tcp_header_wire_roundtrip:
  "convert_external_to_tcp_header (convert_tcp_header_to_external h) =
     h\<lparr>win_size := 5840, hdrlen_rsvd_nonce := 0x50\<rparr>"
  by (simp add: convert_external_to_tcp_header_def Let_def tcphdr_bytes_external tcp_header_of_bytes_def
      flip: bytes_of_htons bytes_of_htonl)

section \<open>Bit vectors\<close>

lemma low_bits:
  "x AND 0xFFFF = take_bit 16 x" "x AND 0xFF = take_bit 8 x" "x AND 0xF = take_bit 4 x" for x :: u32
  by (simp_all add: take_bit_eq_mask mask_eq_exp_minus_1)

lemma halves_plus: "push_bit 16 (ucast a) + ucast b = (push_bit 16 (ucast a) OR ucast b :: u32)"
  for a b :: u16
  by (rule disjunctive_add) (auto simp: bit_simps dest: bit_imp_le_length)

lemma high_half [simp]: "ucast (drop_bit 16 (push_bit 16 (ucast a) + ucast b :: u32)) = a" for a b :: u16
  unfolding halves_plus by (rule bit_word_eqI) (auto simp: bit_simps dest: bit_imp_le_length)

lemma low_half [simp]: "ucast ((push_bit 16 (ucast a) + ucast b :: u32) AND 0xFFFF) = b" for a b :: u16
  unfolding halves_plus low_bits by (rule bit_word_eqI) (auto simp: bit_simps dest: bit_imp_le_length)

text \<open>The word that packs two bytes and a half word.\<close>

lemma packed_plus:
  "push_bit 24 (ucast a) + push_bit 16 (ucast b) + ucast c =
     (push_bit 24 (ucast a) OR push_bit 16 (ucast b) OR ucast c :: u32)" for a b :: u8 and c :: u16
proof -
  have "push_bit 24 (ucast a) + push_bit 16 (ucast b) = (push_bit 24 (ucast a) OR push_bit 16 (ucast b) :: u32)"
    by (rule disjunctive_add) (auto simp: bit_simps dest: bit_imp_le_length)
  moreover have "(push_bit 24 (ucast a) OR push_bit 16 (ucast b) :: u32) + ucast c =
      ((push_bit 24 (ucast a) OR push_bit 16 (ucast b)) OR ucast c)"
    by (rule disjunctive_add) (auto simp: bit_simps dest: bit_imp_le_length)
  ultimately show ?thesis by (simp add: ac_simps)
qed

lemma packed_fields [simp]:
  "ucast (drop_bit 24 (push_bit 24 (ucast a) + push_bit 16 (ucast b) + ucast c :: u32)) = a"
  "ucast (drop_bit 16 (push_bit 24 (ucast a) + push_bit 16 (ucast b) + ucast c :: u32) AND 0xFF) = b"
  "ucast ((push_bit 24 (ucast a) + push_bit 16 (ucast b) + ucast c :: u32) AND 0xFFFF) = c"
  for a b :: u8 and c :: u16
  unfolding packed_plus low_bits
  by (rule bit_word_eqI, auto simp: bit_simps dest: bit_imp_le_length)+

text \<open>
  C25: writing a header into a bit vector and reading it back gives the same header except for
  the checksum, whose bytes are swapped by the reader and not by the writer.
\<close>

theorem tcp_header_bitvec_roundtrip:
  assumes "5 \<le> length v"
  shows "bindE (tcp_header_to_bitvec h v) bitvec_to_tcp_header = Inr (h\<lparr>chksum := ntohs (chksum h)\<rparr>)"
proof -
  have "0 < length v" using assms by linarith
  with assms show ?thesis by (simp add: tcp_header_to_bitvec_def bitvec_to_tcp_header_def vec_at_def)
qed

theorem tcp_header_bitvec_roundtrip_witness:
  "bindE (tcp_header_to_bitvec \<lparr>src_port = 1, dst_port = 2, seq_num = 3, ack_num = 4, hdrlen_rsvd_nonce = 0x50,
      tcp_flags = 2, win_size = 5, chksum = 0x1234, urg_pointer = 0\<rparr> [0, 0, 0, 0, 0]) bitvec_to_tcp_header =
    Inr (\<lparr>src_port = 1, dst_port = 2, seq_num = 3, ack_num = 4, hdrlen_rsvd_nonce = 0x50,
      tcp_flags = 2, win_size = 5, chksum = 0x1234, urg_pointer = 0\<rparr>\<lparr>chksum := ntohs 0x1234\<rparr>)"
  using tcp_header_bitvec_roundtrip [of "[0, 0, 0, 0, 0]" "\<lparr>src_port = 1, dst_port = 2, seq_num = 3,
      ack_num = 4, hdrlen_rsvd_nonce = 0x50, tcp_flags = 2, win_size = 5, chksum = 0x1234, urg_pointer = 0\<rparr>"]
  by simp

lemma bytes_of_explicit:
  "bytes_of 2 w = [byte_at 0 w, byte_at 1 w]"
  "bytes_of 4 w = [byte_at 0 w, byte_at 1 w, byte_at 2 w, byte_at 3 w]"
  by (simp_all add: bytes_of_def upt_rec numeral_eq_Suc)

lemma rev_bytes_of_4_halves:
  "rev (bytes_of 4 w) = rev (bytes_of 2 (ucast (drop_bit 16 w) :: u16)) @ rev (bytes_of 2 (ucast (w AND 0xFFFF) :: u16))"
  for w :: u32
proof -
  have "bytes_of 4 w = bytes_of 2 (ucast (w AND 0xFFFF) :: u16) @ bytes_of 2 (ucast (drop_bit 16 w) :: u16)"
    unfolding low_bits bytes_of_explicit
    by (simp, intro conjI; rule bit_word_eqI) (auto simp: bit_byte_at bit_simps)
  then show ?thesis by (simp only: rev_append)
qed

text \<open>
  C23: the wire header made from the header vector of the hardware is the vector in network byte
  order, most significant word first, except that the window is overwritten and the urgent pointer
  keeps host byte order.
\<close>

theorem hardware_tcp_header_on_wire:
  assumes "v = [v0, v1, v2, v3, v4]"
  shows "\<exists>h. bitvec_to_tcp_header v = Inr h \<and>
    tcphdr_bytes (convert_tcp_header_to_external h) =
      (take 14 (concat (map (\<lambda>w. rev (bytes_of 4 w)) [v4, v3, v2, v1])) @ rev (bytes_of 2 (5840 :: u16)) @
       take 2 (rev (bytes_of 4 v0)) @ take 2 (bytes_of 4 v0))"
proof -
  have "bytes_of 2 (ucast (v0 AND 0xFFFF) :: u16) = take 2 (bytes_of 4 v0)"
    unfolding low_bits bytes_of_explicit
    by (simp, intro conjI; rule bit_word_eqI) (auto simp: bit_byte_at bit_simps)
  moreover have "rev (bytes_of 4 v1) = [ucast (drop_bit 24 v1), ucast (drop_bit 16 v1 AND 0xFF),
     byte_at 1 v1, byte_at 0 v1]"
    unfolding low_bits bytes_of_explicit
    by (simp, intro conjI; rule bit_word_eqI) (auto simp: bit_byte_at bit_simps)
  ultimately show ?thesis
    unfolding assms
    by (simp add: bitvec_to_tcp_header_def vec_at_def tcphdr_bytes_external rev_bytes_of_4_halves [of v4]
        rev_bytes_of_4_halves [of v0] bytes_of_ntohs)
qed

theorem hardware_tcp_header_on_wire_witness:
  "\<exists>h. bitvec_to_tcp_header [0xabcd0000, 0x5012ffff, 3, 2, 0x00500051] = Inr h \<and>
    take 4 (tcphdr_bytes (convert_tcp_header_to_external h)) = [0, 0x50, 0, 0x51]"
proof -
  have "take 4 (rev (bytes_of 4 (0x00500051 :: u32))) = [0, 0x50, 0, 0x51]" by code_simp
  then show ?thesis
    using hardware_tcp_header_on_wire
      [of "[0xabcd0000, 0x5012ffff, 3, 2, 0x00500051]" "0xabcd0000" "0x5012ffff" 3 2 "0x00500051"]
    by auto
qed

text \<open>The words of the hardware's IP header, field by field.\<close>

lemma ip_pkt_hdr_word4:
  "ucast (drop_bit 28 (ucast (drop_bit 128 (ip_pkt_hdr_bits h)) :: u32) AND 0xF) = sv_ip_version h"
  "ucast (drop_bit 24 (ucast (drop_bit 128 (ip_pkt_hdr_bits h)) :: u32) AND 0xF) = sv_ip_hdr_len h"
  "ucast (drop_bit 16 (ucast (drop_bit 128 (ip_pkt_hdr_bits h)) :: u32) AND 0xFF) = sv_tos h"
  "ucast ((ucast (drop_bit 128 (ip_pkt_hdr_bits h)) :: u32) AND 0xFFFF) = sv_tot_len h"
  unfolding low_bits ip_pkt_hdr_bits_def
  by (rule bit_word_eqI, auto simp: bit_simps dest: bit_imp_le_length)+

lemma ip_pkt_hdr_word3:
  "ucast (drop_bit 16 (ucast (drop_bit 96 (ip_pkt_hdr_bits h)) :: u32) AND 0xFFFF) = sv_id h"
  "ucast ((ucast (drop_bit 96 (ip_pkt_hdr_bits h)) :: u32) AND 0xFFFF) = sv_frag_offset h"
  unfolding low_bits ip_pkt_hdr_bits_def
  by (rule bit_word_eqI, auto simp: bit_simps dest: bit_imp_le_length)+

lemma ip_pkt_hdr_word2:
  "ucast (drop_bit 24 (ucast (drop_bit 64 (ip_pkt_hdr_bits h)) :: u32) AND 0xFF) = sv_ttl h"
  "ucast (drop_bit 16 (ucast (drop_bit 64 (ip_pkt_hdr_bits h)) :: u32) AND 0xFF) = sv_protocol_no h"
  "ucast ((ucast (drop_bit 64 (ip_pkt_hdr_bits h)) :: u32) AND 0xFFFF) = sv_chksum h"
  unfolding low_bits ip_pkt_hdr_bits_def
  by (rule bit_word_eqI, auto simp: bit_simps dest: bit_imp_le_length)+

lemma ip_pkt_hdr_addrs:
  "ucast (drop_bit 32 (ip_pkt_hdr_bits h)) = sv_source_addr h" "ucast (ip_pkt_hdr_bits h) = sv_dest_addr h"
  unfolding ip_pkt_hdr_bits_def
  by (rule bit_word_eqI, auto simp: bit_simps dest: bit_imp_le_length)+

lemma svBitVecVal_of_words:
  "svBitVecVal_of v = [ucast v, ucast (drop_bit 32 v), ucast (drop_bit 64 v), ucast (drop_bit 96 v), ucast (drop_bit 128 v)]"
  by (simp add: svBitVecVal_of_def upt_rec)

text \<open>
  C40: \<open>bitvec_to_ip_header\<close> on the vector of the hardware's IP header exchanges the header length and
  the version: it reads the version of the packet as the header length and the header length as the
  version. All other fields are read from where the hardware has them, the addresses put into network
  byte order.
\<close>

theorem bitvec_to_ip_header_swaps:
  "bitvec_to_ip_header (svBitVecVal_of (ip_pkt_hdr_bits h)) =
     Inr \<lparr>ihl = sv_ip_version h, version = sv_ip_hdr_len h, tos = sv_tos h, tot_len = sv_tot_len h,
          ipid = sv_id h, frag_off = sv_frag_offset h, ttl = sv_ttl h, protocol = sv_protocol_no h,
          ip_check = sv_chksum h, saddr = htonl (sv_source_addr h), daddr = htonl (sv_dest_addr h)\<rparr>"
  by (simp add: bitvec_to_ip_header_def svBitVecVal_of_words vec_at_def ip_pkt_hdr_word4 ip_pkt_hdr_word3
      ip_pkt_hdr_word2 ip_pkt_hdr_addrs)

section \<open>Filled headers\<close>

lemma ip_check_bytes:
  "iphdr_bytes (h\<lparr>ip_check := c\<rparr>) = take 10 (iphdr_bytes h) @ bytes_of 2 c @ drop (10 + 2) (iphdr_bytes h)"
  by (simp add: iphdr_bytes_def)

lemma tcp_check_bytes:
  "tcphdr_bytes (h\<lparr>tcp_check := c\<rparr>) = take 16 (tcphdr_bytes h) @ bytes_of 2 c @ drop (16 + 2) (tcphdr_bytes h)"
  by (simp add: tcphdr_bytes_def)

text \<open>
  C27: \<open>fill_ip_header\<close> returns a header that verifies and keeps the addresses; its
  identification is zero, whatever the 54321 of the code suggests, since the low half of the
  32-bit conversion is assigned.
\<close>

theorem fill_ip_header_verifies:
  "\<exists>h'. fill_ip_header h payload_len = Inr h' \<and> csum (iphdr_bytes h') 20 = Inr 0 \<and>
     ihl h' = 5 \<and> version h' = 4 \<and> protocol h' = IPPROTO_TCP \<and> ipid h' = 0 \<and>
     saddr h' = saddr h \<and> daddr h' = daddr h \<and>
     unat (ntohs (tot_len h')) = (40 + unat payload_len) mod 65536"
proof -
  let ?tl = "ucast (of_nat sizeof_iphdr + of_nat sizeof_tcphdr + ucast payload_len :: u64) :: u16"
  let ?h = "h\<lparr>ihl := 5, version := 4, tos := 0, tot_len := htons ?tl, ipid := ucast (htonl 54321),
    frag_off := 0, ttl := 255, protocol := IPPROTO_TCP, ip_check := 0\<rparr>"
  let ?c = "internet_checksum (iphdr_bytes ?h)" let ?h' = "?h\<lparr>ip_check := ?c\<rparr>"
  have cs: "csum (iphdr_bytes g) 20 = Inr (internet_checksum (iphdr_bytes g))" for g
    using csum_reference [of 20 "iphdr_bytes g"] by simp
  have h0: "iphdr_bytes ?h = take 10 (iphdr_bytes ?h) @ bytes_of 2 (0 :: u16) @ drop (10 + 2) (iphdr_bytes ?h)"
    using ip_check_bytes [where h = ?h and c = 0] by simp
  have "internet_checksum (iphdr_bytes ?h') = 0"
    unfolding ip_check_bytes by (rule internet_checksum_splice) (use h0 in simp_all)
  then have v: "csum (iphdr_bytes ?h') 20 = Inr 0" by (simp only: cs)
  have f: "fill_ip_header h payload_len = Inr ?h'"
    unfolding fill_ip_header_def Let_def using cs [of ?h] by simp
  have i: "ucast (htonl 54321) = (0 :: u16)" by code_simp
  have "unat payload_len < 2 ^ 32" using unsigned_less [of payload_len] by simp
  then have "unat (of_nat sizeof_iphdr + of_nat sizeof_tcphdr + ucast payload_len :: u64) = 40 + unat payload_len"
    by (simp add: unat_word_ariths unsigned_ucast_eq take_bit_nat_eq_self)
  then have "unat ?tl = (40 + unat payload_len) mod 65536"
    by (simp add: unsigned_ucast_eq take_bit_eq_mod)
  with v f i show ?thesis by (intro exI [of _ ?h']) simp
qed

text \<open>
  C26: \<open>fill_tcp_header\<close> gives a header without payload that verifies under the pseudo header of
  the two addresses, with the given numbers and flags.
\<close>

theorem fill_tcp_header_verifies:
  "\<exists>h'. fill_tcp_header st h sq ak sy ac dst = Inr h' \<and>
     internet_checksum (tcp_pseudogram (s_addr (source_addr st)) (s_addr dst) (tcphdr_bytes h')) = 0 \<and>
     ntohl (seq h') = sq \<and> ntohl (ack_seq h') = ak \<and> syn h' = odd sy \<and> ack h' = odd ac \<and> doff h' = 5 \<and>
     ntohs (source h') = sin_port (source_addr st) \<and> ntohs (dest h') = sin_port dst \<and>
     \<not> fin h' \<and> \<not> rst h' \<and> \<not> psh h' \<and> \<not> urg h'"
proof -
  let ?h = "h\<lparr>source := htons (sin_port (source_addr st)), dest := htons (sin_port dst), seq := htonl sq,
    ack_seq := htonl ak, res1 := 0, doff := 5, fin := False, syn := bit sy 0, rst := False, psh := False,
    ack := bit ac 0, urg := False, res2 := 0, window := htons 5840, tcp_check := 0, urg_ptr := 0\<rparr>"
  let ?g = "\<lambda>h. tcp_pseudogram (s_addr (source_addr st)) (s_addr dst) (tcphdr_bytes h)"
  let ?c = "internet_checksum (?g ?h)" let ?h' = "?h\<lparr>tcp_check := ?c\<rparr>"
  have l: "length (?g h) = 32" for h by (simp add: tcp_pseudogram_def)
  have sp: "?g (?h\<lparr>tcp_check := c\<rparr>) = take 28 (?g ?h) @ bytes_of 2 c @ drop (28 + 2) (?g ?h)" for c
    unfolding tcp_check_bytes by (simp add: tcp_pseudogram_def)
  have "?h\<lparr>tcp_check := 0\<rparr> = ?h" by simp
  then have g0: "?g ?h = take 28 (?g ?h) @ bytes_of 2 (0 :: u16) @ drop (28 + 2) (?g ?h)"
    using sp [of 0] by (simp only:)
  have v: "internet_checksum (?g ?h') = 0"
    unfolding sp by (rule internet_checksum_splice) (use g0 l in simp_all)
  have "csum (?g ?h) 32 = Inr ?c" using csum_reference [of 32 "?g ?h"] l [of ?h] by simp
  then have f: "fill_tcp_header st h sq ak sy ac dst = Inr ?h'"
    unfolding fill_tcp_header_def Let_def by (simp add: tcp_pseudogram_def)
  with v show ?thesis by (intro exI [of _ ?h']) (simp add: bit_0)
qed

section \<open>The 64-bit data words\<close>

lemma rev_by_index: "length xs = 8 \<Longrightarrow> map (\<lambda>i. xs ! (7 - i)) [0..<8] = rev xs"
  by (rule nth_equalityI) (simp_all add: rev_nth)

text \<open>
  C28: a 64-bit data word of the hardware stored into a buffer as bytes and read back for the
  simulator is the same number; the buffer holds it most significant byte first.
\<close>

theorem data_swizzle_roundtrip:
  assumes "8 \<le> length buf"
  shows "\<exists>buf'. data_swizzle_64_bitvec_to_c_buf [lo, hi] buf = Inr buf' \<and>
    take 8 buf' = rev (bytes_of 4 hi) @ rev (bytes_of 4 lo) \<and> drop 8 buf' = drop 8 buf \<and>
    data_swizzle_64_c_buf_to_dpi_longint buf' = Inr (word_of_bytes (bytes_of 4 lo @ bytes_of 4 hi))"
proof -
  let ?b = "rev (bytes_of 4 hi) @ rev (bytes_of 4 lo)"
  have b: "?b = [byte_at 3 hi, byte_at 2 hi, byte_at 1 hi, byte_at 0 hi,
      byte_at 3 lo, byte_at 2 lo, byte_at 1 lo, byte_at 0 lo]"
    by (simp add: bytes_of_explicit)
  have s: "data_swizzle_64_bitvec_to_c_buf [lo, hi] buf = Inr (?b @ drop 8 buf)"
    unfolding b using assms
    by (simp add: data_swizzle_64_bitvec_to_c_buf_def vec_at_def Let_def store_def) (simp add: numeral_eq_Suc)
  have "map (\<lambda>i. (take 8 (?b @ drop 8 buf)) ! (7 - i)) [0..<8] = bytes_of 4 lo @ bytes_of 4 hi"
    using rev_by_index [of "take 8 (?b @ drop 8 buf)"] by simp
  then have "data_swizzle_64_c_buf_to_dpi_longint (?b @ drop 8 buf) = Inr (word_of_bytes (bytes_of 4 lo @ bytes_of 4 hi))"
    unfolding data_swizzle_64_c_buf_to_dpi_longint_def by (simp add: load_bytes_def)
  with s show ?thesis by simp
qed

theorem data_swizzle_roundtrip_witness:
  "\<exists>buf'. data_swizzle_64_bitvec_to_c_buf [0x05060708, 0x01020304] (replicate 8 0) = Inr buf' \<and>
    take 8 buf' = [1, 2, 3, 4, 5, 6, 7, 8]"
proof -
  have "rev (bytes_of 4 (0x01020304 :: u32)) @ rev (bytes_of 4 (0x05060708 :: u32)) = [1, 2, 3, 4, 5, 6, 7, 8]"
    by code_simp
  then show ?thesis using data_swizzle_roundtrip [of "replicate 8 0" "0x05060708" "0x01020304"] by auto
qed

end
