(* ===== verification/Sim_CPU.thy ===== *)
theory Sim_CPU
  imports Convert Host
begin

text \<open>
  The emulated control CPU of \<^verbatim>\<open>src/sim_dpi/sim_cpu.cpp\<close>: \<open>set_new_flow\<close> announces a flow to the
  hardware by writing its lookup entry and raising a flag that \<open>tick_flow_valid\<close>, called every
  clock cycle, reads and clears.

  The simulator's current scope is part of the state; a scope is its name. The exported function
  \<open>write_flowid_lookup\<close> is an event with the three words of the vector that are assigned. The
  array of flows has static storage: an index outside it is a fault.
\<close>

section \<open>State and operations\<close>

record sim_cpu =
  flows :: "flow_state list"
  local_sim_scope :: string
  cur_scope :: string

definition sim_cpu_wf :: "sim_cpu \<Rightarrow> bool" where
  "sim_cpu_wf c \<longleftrightarrow> length (flows c) = ACTIVE_FLOW_CNT"

definition flow_at :: "sim_cpu \<Rightarrow> int \<Rightarrow> flow_state res" where
  "flow_at c flow_id =
     (if 0 \<le> flow_id \<and> flow_id < int (length (flows c)) then Inr (flows c ! nat flow_id) else Inl OutOfBounds)"

definition set_new_flow :: "int \<Rightarrow> sock_state \<Rightarrow> world \<times> sim_cpu \<Rightarrow> (world \<times> sim_cpu) res" where
  "set_new_flow flow_id ss = (\<lambda>(w, c).
     let orig_scope = cur_scope c;
         w = say_str ''set new flow scope: %s'' (local_sim_scope c) w;
         c = c\<lparr>cur_scope := local_sim_scope c\<rparr>
     in
     bindE (flow_at c flow_id) (\<lambda>f.
     let lookup = (lookup_entry f)
           \<lparr>host_ip := s_addr (source_addr ss), dest_ip := s_addr (dest_addr ss),
            host_port := sin_port (source_addr ss), dest_port := sin_port (dest_addr ss),
            flow_num := word_of_int flow_id\<rparr>;
         dpi_flow_lookup =
           [push_bit 16 (ucast (host_port lookup)) + ucast (dest_port lookup),
            ntohl (dest_ip lookup), ntohl (host_ip lookup)] :: u32 list;
         w = emit (WriteFlowidLookup dpi_flow_lookup flow_id (sint (init_ack_num ss))) w;
         lookup = lookup\<lparr>flow_drive_valid := True\<rparr>;
         c = c\<lparr>flows := (flows c)[nat flow_id := f\<lparr>lookup_entry := lookup\<rparr>]\<rparr>
     in Inr (w, c\<lparr>cur_scope := orig_scope\<rparr>)))"

definition tick_flow_valid :: "int \<Rightarrow> sim_cpu \<Rightarrow> (bool \<times> sim_cpu) res" where
  "tick_flow_valid flow_id c =
     bindE (flow_at c flow_id) (\<lambda>f.
     let result = flow_drive_valid (lookup_entry f);
         f = f\<lparr>lookup_entry := (lookup_entry f)\<lparr>flow_drive_valid := False\<rparr>\<rparr>
     in Inr (result, c\<lparr>flows := (flows c)[nat flow_id := f]\<rparr>))"

definition local_init :: "world \<times> sim_cpu \<Rightarrow> world \<times> sim_cpu" where
  "local_init = (\<lambda>(w, c).
     let c = c\<lparr>local_sim_scope := cur_scope c\<rparr> in (say_str ''local init scope: %s'' (local_sim_scope c) w, c))"

text \<open>Several clock cycles.\<close>

fun ticks :: "nat \<Rightarrow> int \<Rightarrow> sim_cpu \<Rightarrow> (bool list \<times> sim_cpu) res" where
  "ticks 0 flow_id c = Inr ([], c)"
| "ticks (Suc n) flow_id c =
     bindE (tick_flow_valid flow_id c) (\<lambda>(r, c). bindE (ticks n flow_id c) (\<lambda>(rs, c). Inr (r # rs, c)))"

section \<open>Lemmas\<close>

definition valid_of :: "sim_cpu \<Rightarrow> nat \<Rightarrow> bool" where
  "valid_of c i = flow_drive_valid (lookup_entry (flows c ! i))"

lemma tick_flow_valid_spec:
  assumes "sim_cpu_wf c" "0 \<le> k" "k < 4"
  shows "\<exists>c'. tick_flow_valid k c = Inr (valid_of c (nat k), c') \<and> sim_cpu_wf c' \<and> \<not> valid_of c' (nat k) \<and>
    (\<forall>i < 4. i \<noteq> nat k \<longrightarrow> flows c' ! i = flows c ! i)"
  using assms
  by (auto simp: tick_flow_valid_def flow_at_def sim_cpu_wf_def ACTIVE_FLOW_CNT_def valid_of_def Let_def)

lemma ticks_quiet:
  assumes "sim_cpu_wf c" "0 \<le> k" "k < 4" "\<not> valid_of c (nat k)"
  shows "\<exists>c'. ticks n k c = Inr (replicate n False, c')"
  using assms
proof (induction n arbitrary: c)
  case (Suc n)
  then obtain c1 where 1: "tick_flow_valid k c = Inr (False, c1)" "sim_cpu_wf c1" "\<not> valid_of c1 (nat k)"
    using tick_flow_valid_spec [OF Suc.prems(1-3)] by auto
  with Suc.IH [OF 1(2) Suc.prems(2,3)] show ?case by auto
qed simp

text \<open>
  C30: announcing a flow makes the valid signal of that flow, and of no other, true for exactly one
  clock cycle; the entry given to the hardware holds host address, peer address and the two ports
  in host byte order, and the simulator's scope is left as it was.
\<close>

theorem set_new_flow_pulses_once:
  assumes wf: "sim_cpu_wf c" and k: "0 \<le> k" "k < 4"
  shows "\<exists>w' c'. set_new_flow k ss (w, c) = Inr (w', c') \<and> sim_cpu_wf c' \<and> cur_scope c' = cur_scope c \<and>
    (\<exists>c''. ticks (Suc n) k c' = Inr (True # replicate n False, c'')) \<and>
    (\<forall>i < 4. i \<noteq> nat k \<longrightarrow> flows c' ! i = flows c ! i) \<and>
    out w' = out w @ [PrintS ''set new flow scope: %s'' (local_sim_scope c),
      WriteFlowidLookup
        [push_bit 16 (ucast (sin_port (source_addr ss))) + ucast (sin_port (dest_addr ss)),
         ntohl (s_addr (dest_addr ss)), ntohl (s_addr (source_addr ss))] k (sint (init_ack_num ss))]"
proof -
  obtain w' c' where 1: "set_new_flow k ss (w, c) = Inr (w', c')" "sim_cpu_wf c'" "cur_scope c' = cur_scope c"
      "valid_of c' (nat k)" "\<forall>i < 4. i \<noteq> nat k \<longrightarrow> flows c' ! i = flows c ! i"
      "out w' = out w @ [PrintS ''set new flow scope: %s'' (local_sim_scope c),
        WriteFlowidLookup
          [push_bit 16 (ucast (sin_port (source_addr ss))) + ucast (sin_port (dest_addr ss)),
           ntohl (s_addr (dest_addr ss)), ntohl (s_addr (source_addr ss))] k (sint (init_ack_num ss))]"
    using wf k
    by (auto simp: set_new_flow_def flow_at_def sim_cpu_wf_def ACTIVE_FLOW_CNT_def valid_of_def Let_def)
  obtain c1 where 2: "tick_flow_valid k c' = Inr (True, c1)" "sim_cpu_wf c1" "\<not> valid_of c1 (nat k)"
    using tick_flow_valid_spec [OF 1(2) k] 1(4) by auto
  obtain c'' where "ticks n k c1 = Inr (replicate n False, c'')" using ticks_quiet [OF 2(2) k 2(3)] by blast
  with 2(1) have "\<exists>c''. ticks (Suc n) k c' = Inr (True # replicate n False, c'')" by simp
  with 1 show ?thesis by blast
qed

definition ex_flow :: flow_state where
  "ex_flow = \<lparr>lookup_entry = \<lparr>host_ip = 0, dest_ip = 0, host_port = 0, dest_port = 0, flow_num = 0,
      flow_drive_valid = False\<rparr>,
     payloads = \<lparr>payload_data = replicate 16 0, num_sent = 0, packet_drive_valid = False\<rparr>\<rparr>"

theorem set_new_flow_pulses_once_witness:
  "\<exists>w' c'. set_new_flow 2
      \<lparr>send_sock = 0, recv_sock = 0, source_addr = \<lparr>sin_family = 2, sin_port = 80, s_addr = 1\<rparr>,
       dest_addr = \<lparr>sin_family = 2, sin_port = 90, s_addr = 2\<rparr>, source_mac_addr = [], dest_mac_addr = [],
       has_syn_acked = 0, init_ack_num = 7\<rparr>
      (\<lparr>backend_life = NullPtr, out = []\<rparr>,
       \<lparr>flows = replicate 4 ex_flow, local_sim_scope = ''cpu'', cur_scope = ''top''\<rparr>) = Inr (w', c') \<and>
    (\<exists>c''. ticks 3 2 c' = Inr ([True, False, False], c''))"
proof -
  let ?ss = "\<lparr>send_sock = 0, recv_sock = 0, source_addr = \<lparr>sin_family = 2, sin_port = 80, s_addr = 1\<rparr>,
       dest_addr = \<lparr>sin_family = 2, sin_port = 90, s_addr = 2\<rparr>, source_mac_addr = [], dest_mac_addr = [],
       has_syn_acked = 0, init_ack_num = 7\<rparr>"
  let ?c = "\<lparr>flows = replicate 4 ex_flow, local_sim_scope = ''cpu'', cur_scope = ''top''\<rparr>"
  have "sim_cpu_wf ?c" by (simp add: sim_cpu_wf_def ACTIVE_FLOW_CNT_def)
  from set_new_flow_pulses_once [OF this, of 2 ?ss "\<lparr>backend_life = NullPtr, out = []\<rparr>" 2] show ?thesis
    by (auto simp: numeral_eq_Suc)
qed

end
