(* ===== verification/Printing.thy ===== *)
theory Printing
  imports Host
begin

text \<open>
  The printing functions of \<^verbatim>\<open>src/sim_dpi/testing_utils.cpp\<close>: one \<open>printf\<close> per line, in the order
  of the code. The two functions of the C library that make text of an address are written out:
  \<open>inet_ntoa\<close> prints the four bytes of the address in memory order in decimal, \<open>ether_ntoa\<close> the
  six bytes of a hardware address in hexadecimal without leading zeros.
\<close>

section \<open>Addresses as text\<close>

definition digit_char :: "nat \<Rightarrow> char" where
  "digit_char d = ''0123456789abcdef'' ! d"

definition dec_string :: "u8 \<Rightarrow> string" where
  "dec_string b =
     (let n = unat b in
      if n < 10 then [digit_char n]
      else if n < 100 then [digit_char (n div 10), digit_char (n mod 10)]
      else [digit_char (n div 100), digit_char (n div 10 mod 10), digit_char (n mod 10)])"

definition hex_string :: "u8 \<Rightarrow> string" where
  "hex_string b =
     (let n = unat b in
      if n < 16 then [digit_char n] else [digit_char (n div 16), digit_char (n mod 16)])"

fun join_with :: "char \<Rightarrow> string list \<Rightarrow> string" where
  "join_with c [] = []"
| "join_with c [s] = s"
| "join_with c (s # ss) = s @ c # join_with c ss"

definition inet_ntoa :: "u32 \<Rightarrow> string" where
  "inet_ntoa a = join_with (CHR ''.'') (map dec_string (bytes_of 4 a))"

definition ether_ntoa :: "mem \<Rightarrow> string" where
  "ether_ntoa m = join_with (CHR '':'') (map hex_string m)"

section \<open>Operations\<close>

definition print_tcp_header :: "tcp_header \<Rightarrow> world \<Rightarrow> world" where
  "print_tcp_header print_header w =
     (let w = say ''tcp src port: %d'' [uint (src_port print_header)] w;
          w = say ''tcp dst port: %d'' [uint (dst_port print_header)] w;
          w = say ''tcp seq num: %x'' [uint (seq_num print_header)] w;
          w = say ''tcp ack num: %x'' [uint (ack_num print_header)] w;
          w = say ''tcp hdr len: %x'' [uint (drop_bit 4 (hdrlen_rsvd_nonce print_header))] w;
          w = say ''tcp rsved: %x'' [uint (drop_bit 1 (hdrlen_rsvd_nonce print_header) AND 0x7)] w;
          w = say ''tcp flags: %x'' [uint (tcp_flags print_header)] w;
          w = say ''tcp win size: %x'' [uint (win_size print_header)] w;
          w = say ''tcp chksum: %x'' [uint (chksum print_header)] w
      in say ''tcp urg pointer: %x'' [uint (urg_pointer print_header)] w)"

definition print_ip_header :: "iphdr \<Rightarrow> world \<Rightarrow> world" where
  "print_ip_header print_header w =
     (let source_addr = saddr print_header;
          dest_addr = daddr print_header;
          w = say ''ip ihl: %d'' [uint (ihl print_header)] w;
          w = say ''ip version: %d'' [uint (version print_header)] w;
          w = say ''ip tos: %d'' [uint (tos print_header)] w;
          w = say ''ip tot len: %d'' [uint (tot_len print_header)] w;
          w = say ''ip id: %d'' [uint (ipid print_header)] w;
          w = say ''ip frag off: %d'' [uint (frag_off print_header)] w;
          w = say ''ip ttl: %d'' [uint (ttl print_header)] w;
          w = say ''ip protocol: %d'' [uint (protocol print_header)] w;
          w = say ''ip checksum: %x'' [uint (ip_check print_header)] w;
          w = say_str ''ip source address: %s'' (inet_ntoa source_addr) w
      in say_str ''ip dest address: %s'' (inet_ntoa dest_addr) w)"

text \<open>
  The pointers are casts into the packet; every member access is a load from it. The TCP header
  is where the header length of the IP header says.
\<close>

definition print_wire_header :: "mem \<Rightarrow> world \<Rightarrow> world res" where
  "print_wire_header packet_buffer w =
     (let eth_hdr = 0; ip_packet = sizeof_ether_header in
      bindE (load 1 packet_buffer ip_packet) (\<lambda>vi :: u8.
      let tcp_packet = sizeof_ether_header + 4 * unat (low_nibble vi) in
      bindE (load 4 packet_buffer (ip_packet + 12)) (\<lambda>source_s_addr :: u32.
      bindE (load 2 packet_buffer tcp_packet) (\<lambda>tcp_source :: u16.
      bindE (load 4 packet_buffer (ip_packet + 16)) (\<lambda>dest_s_addr :: u32.
      bindE (load 2 packet_buffer (tcp_packet + 2)) (\<lambda>tcp_dest :: u16.
      bindE (load 2 packet_buffer (ip_packet + 2)) (\<lambda>tlen :: u16.
      let w = say ''Packet Size (bytes): %d'' [uint (ntohs tlen)] w in
      bindE (load_bytes 6 packet_buffer (eth_hdr + 6)) (\<lambda>shost.
      let w = say_str ''Source MAC: %s'' (ether_ntoa shost) w in
      bindE (load_bytes 6 packet_buffer eth_hdr) (\<lambda>dhost.
      let w = say_str ''Dest MAC: %s'' (ether_ntoa dhost) w;
          w = say_str ''Source Address: %s'' (inet_ntoa source_s_addr) w;
          w = say_str ''Destination Address: %s'' (inet_ntoa dest_s_addr) w in
      bindE (load 2 packet_buffer (ip_packet + 4)) (\<lambda>ident :: u16.
      let w = say ''Identification: %d'' [uint (ntohs ident)] w in
      bindE (load 1 packet_buffer (ip_packet + 9)) (\<lambda>proto :: u8.
      let w = say ''Protocol: %d'' [uint proto] w in
      bindE (load 1 packet_buffer (tcp_packet + 12)) (\<lambda>rd :: u8.
      let w = say ''TCP header size (bytes): %d'' [uint (high_nibble rd) * 4] w;
          w = say ''Source Port: %d'' [uint (ntohs tcp_source)] w;
          w = say ''Dest Port: %d'' [uint (ntohs tcp_dest)] w in
      bindE (load 1 packet_buffer (tcp_packet + 13)) (\<lambda>fb :: u8.
      let w = say ''SYN: %d'' [of_bool (bit fb 1)] w;
          w = say ''ACK: %d'' [of_bool (bit fb 4)] w in
      bindE (if bit fb 4
             then bindE (load 4 packet_buffer (tcp_packet + 8)) (\<lambda>an :: u32.
                  Inr (say ''ACK num: %u'' [uint (ntohl an)] w))
             else Inr w)
        (\<lambda>w. Inr (say '''' [] w)))))))))))))))"

section \<open>What is printed of a frame\<close>

definition wire_report :: "ether_header \<Rightarrow> iphdr \<Rightarrow> tcphdr \<Rightarrow> event list" where
  "wire_report e i t =
     [Print ''Packet Size (bytes): %d'' [uint (ntohs (tot_len i))],
      PrintS ''Source MAC: %s'' (ether_ntoa (ether_shost e)),
      PrintS ''Dest MAC: %s'' (ether_ntoa (ether_dhost e)),
      PrintS ''Source Address: %s'' (inet_ntoa (saddr i)),
      PrintS ''Destination Address: %s'' (inet_ntoa (daddr i)),
      Print ''Identification: %d'' [uint (ntohs (ipid i))],
      Print ''Protocol: %d'' [uint (protocol i)],
      Print ''TCP header size (bytes): %d'' [uint (doff t) * 4],
      Print ''Source Port: %d'' [uint (ntohs (source t))],
      Print ''Dest Port: %d'' [uint (ntohs (dest t))],
      Print ''SYN: %d'' [of_bool (syn t)],
      Print ''ACK: %d'' [of_bool (ack t)]] @
     (if ack t then [Print ''ACK num: %u'' [uint (ntohl (ack_seq t))]] else []) @
     [Print '''' []]"

lemma load_IP:
  fixes e :: ether_header
  assumes "m = ether_header_bytes e @ iphdr_bytes i @ rest"
    "length (ether_dhost e) = 6" "length (ether_shost e) = 6"
  shows "load 1 m 14 = Inr (nibbles (ihl i) (version i))"
    "load 4 m 26 = Inr (saddr i)" "load 4 m 30 = Inr (daddr i)" "load 2 m 16 = Inr (tot_len i)"
    "load 2 m 18 = Inr (ipid i)" "load 1 m 23 = Inr (protocol i)"
    "load_bytes 6 m 6 = Inr (ether_shost e)" "load_bytes 6 m 0 = Inr (ether_dhost e)"
  using assms by (simp_all add: layout_simps load_def load_bytes_def)

lemma load_TCP:
  assumes "m = pre @ tcphdr_bytes t @ rest" "length pre = off"
  shows "load 2 m off = Inr (source t)" "load 2 m (off + 2) = Inr (dest t)"
    "load 1 m (off + 12) = Inr (nibbles (res1 t) (doff t))" "load 1 m (off + 13) = Inr (flag_byte t)"
    "load 4 m (off + 8) = Inr (ack_seq t)"
  using assms by (simp_all add: tcphdr_bytes_def load_def)

text \<open>
  C31: \<open>print_wire_header\<close> on a frame made of an Ethernet header, an IP header with its options and
  a TCP header prints exactly the report of these three headers, with the acknowledgement number
  if and only if the ACK flag is set. On a frame that ends before the ports of the place where the
  TCP header should be it reads outside the packet.
\<close>

theorem print_wire_header_reports:
  assumes e: "length (ether_dhost e) = 6" "length (ether_shost e) = 6"
    and i: "20 + length opts = 4 * unat (ihl i)"
  shows "(\<exists>w'. print_wire_header
      (ether_header_bytes e @ iphdr_bytes i @ opts @ tcphdr_bytes t @ payload) w = Inr w' \<and>
      out w' = out w @ wire_report e i t) \<and>
    (length short < 4 \<longrightarrow>
      print_wire_header (ether_header_bytes e @ iphdr_bytes i @ opts @ short) w = Inl OutOfBounds)"
proof
  let ?pre = "ether_header_bytes e @ iphdr_bytes i @ opts"
  have off: "length ?pre = 14 + 4 * unat (ihl i)"
    using e i by (simp add: ether_header_bytes_def)
  let ?m = "ether_header_bytes e @ iphdr_bytes i @ opts @ tcphdr_bytes t @ payload"
  note ip = load_IP [OF refl e, of i "opts @ tcphdr_bytes t @ payload"]
  have m: "?m = ?pre @ tcphdr_bytes t @ payload" by simp
  note tcp = load_TCP [OF m off]
  show "\<exists>w'. print_wire_header ?m w = Inr w' \<and> out w' = out w @ wire_report e i t"
    using ip tcp by (simp add: print_wire_header_def Let_def wire_report_def)
  let ?s = "ether_header_bytes e @ iphdr_bytes i @ opts @ short"
  note ips = load_IP [OF refl e, of i "opts @ short"]
  have "load 2 ?s (14 + 4 * unat (ihl i) + 2) = (Inl OutOfBounds :: u16 res)" if "length short < 4"
    using that off by (intro load_outside) simp
  then show "length short < 4 \<longrightarrow> print_wire_header ?s w = Inl OutOfBounds"
    using ips by (auto simp: print_wire_header_def Let_def res_simps load_def [of 2 ?s "14 + 4 * unat (ihl i)"])
qed

theorem print_wire_header_reports_witness:
  "\<exists>w'. print_wire_header
      (ether_header_bytes \<lparr>ether_dhost = [1, 2, 3, 4, 5, 6], ether_shost = [9, 9, 9, 9, 9, 0x1f], ether_type = 8\<rparr> @
       iphdr_bytes \<lparr>ihl = 5, version = 4, tos = 0, tot_len = 0x2800, ipid = 0, frag_off = 0, ttl = 64,
         protocol = 6, ip_check = 0, saddr = 0x0100000a, daddr = 0x0200000a\<rparr> @
       tcphdr_bytes \<lparr>source = 0x5000, dest = 0x5a00, seq = 0, ack_seq = 0x07000000, res1 = 0, doff = 5,
         fin = False, syn = False, rst = False, psh = False, ack = True, urg = False, res2 = 0,
         window = 0, tcp_check = 0, urg_ptr = 0\<rparr>) \<lparr>backend_life = Alive, out = []\<rparr> = Inr w' \<and>
    out w' =
     [Print ''Packet Size (bytes): %d'' [40], PrintS ''Source MAC: %s'' ''9:9:9:9:9:1f'',
      PrintS ''Dest MAC: %s'' ''1:2:3:4:5:6'', PrintS ''Source Address: %s'' ''10.0.0.1'',
      PrintS ''Destination Address: %s'' ''10.0.0.2'', Print ''Identification: %d'' [0],
      Print ''Protocol: %d'' [6], Print ''TCP header size (bytes): %d'' [20],
      Print ''Source Port: %d'' [80], Print ''Dest Port: %d'' [90], Print ''SYN: %d'' [0],
      Print ''ACK: %d'' [1], Print ''ACK num: %u'' [7], Print [] []]"
proof -
  let ?e = "\<lparr>ether_dhost = [1, 2, 3, 4, 5, 6], ether_shost = [9, 9, 9, 9, 9, 0x1f], ether_type = 8\<rparr>"
  let ?i = "\<lparr>ihl = 5, version = 4, tos = 0, tot_len = 0x2800, ipid = 0, frag_off = 0, ttl = 64,
         protocol = 6, ip_check = 0, saddr = 0x0100000a, daddr = 0x0200000a\<rparr>"
  let ?t = "\<lparr>source = 0x5000, dest = 0x5a00, seq = 0, ack_seq = 0x07000000, res1 = 0, doff = 5,
         fin = False, syn = False, rst = False, psh = False, ack = True, urg = False, res2 = 0,
         window = 0, tcp_check = 0, urg_ptr = 0\<rparr>"
  have r: "wire_report ?e ?i ?t =
     [Print ''Packet Size (bytes): %d'' [40], PrintS ''Source MAC: %s'' ''9:9:9:9:9:1f'',
      PrintS ''Dest MAC: %s'' ''1:2:3:4:5:6'', PrintS ''Source Address: %s'' ''10.0.0.1'',
      PrintS ''Destination Address: %s'' ''10.0.0.2'', Print ''Identification: %d'' [0],
      Print ''Protocol: %d'' [6], Print ''TCP header size (bytes): %d'' [20],
      Print ''Source Port: %d'' [80], Print ''Dest Port: %d'' [90], Print ''SYN: %d'' [0],
      Print ''ACK: %d'' [1], Print ''ACK num: %u'' [7], Print [] []]"
    by code_simp
  show ?thesis
    using print_wire_header_reports [of ?e "[]" ?i ?t "[]" "\<lparr>backend_life = Alive, out = []\<rparr>" "[]"]
    unfolding r by simp
qed

section \<open>What is printed determines the header\<close>

definition dec_value :: "string \<Rightarrow> nat" where
  "dec_value s = foldl (\<lambda>n c. 10 * n + (of_char c - 48)) 0 s"

lemma dec_string_checked:
  "list_all (\<lambda>n. let s = dec_string (word_of_nat n) in dec_value s = n \<and> CHR ''.'' \<notin> set s) [0..<256]"
  by code_simp

lemma dec_string_props: "dec_value (dec_string b) = unat b" "CHR ''.'' \<notin> set (dec_string b)"
proof -
  have "unat b \<in> set [0..<256]" using unsigned_less [of b] by simp
  with dec_string_checked show "dec_value (dec_string b) = unat b" "CHR ''.'' \<notin> set (dec_string b)"
    unfolding list_all_iff Let_def by (metis of_nat_unat ucast_id)+
qed

lemma dec_string_inject: "dec_string a = dec_string b \<longleftrightarrow> a = b"
  using dec_string_props(1) by (metis word_unat_eq_iff)

lemma split_at_char:
  "c \<notin> set a \<Longrightarrow> c \<notin> set b \<Longrightarrow> a @ c # x = b @ c # y \<longleftrightarrow> a = b \<and> x = y"
proof (induction a arbitrary: b)
  case (Cons d a)
  then show ?case by (cases b) auto
qed (auto simp: Cons_eq_append_conv)

lemma join_with_inject:
  assumes "length ss = length ts" "\<forall>s \<in> set ss \<union> set ts. c \<notin> set s"
  shows "join_with c ss = join_with c ts \<longleftrightarrow> ss = ts"
  using assms
proof (induction ss ts rule: list_induct2)
  case (Cons s ss t ts)
  then show ?case by (cases ss; cases ts) (auto simp: split_at_char)
qed simp

lemma inet_ntoa_inject: "inet_ntoa a = inet_ntoa b \<longleftrightarrow> a = b"
proof -
  have "inet_ntoa a = inet_ntoa b \<longleftrightarrow> map dec_string (bytes_of 4 a) = map dec_string (bytes_of 4 b)"
    unfolding inet_ntoa_def by (rule join_with_inject) (auto simp: dec_string_props)
  also have "\<dots> \<longleftrightarrow> bytes_of 4 a = bytes_of 4 b"
    by (rule inj_map_eq_map) (simp add: inj_def dec_string_inject)
  finally show ?thesis by simp
qed

lemma printed_bits:
  "drop_bit 4 (a :: u8) = drop_bit 4 b \<and> drop_bit 1 a AND 7 = drop_bit 1 b AND 7 \<longleftrightarrow>
   drop_bit 1 a = drop_bit 1 b"
proof safe
  assume h: "drop_bit 4 a = drop_bit 4 b" "drop_bit 1 a AND 7 = drop_bit 1 b AND 7"
  have 7: "(7 :: u8) = mask 3" by (simp add: mask_eq_exp_minus_1)
  show "drop_bit 1 a = drop_bit 1 b"
  proof (rule bit_word_eqI)
    fix n
    show "bit (drop_bit 1 a) n = bit (drop_bit 1 b) n"
    proof (cases "n < 3")
      case True
      then show ?thesis using arg_cong [OF h(2), of "\<lambda>v. bit v n"] unfolding 7 by (simp add: bit_simps)
    next
      case False
      then obtain m where "n = m + 3" by (metis add.commute le_Suc_ex not_less)
      then show ?thesis using arg_cong [OF h(1), of "\<lambda>v. bit v m"] by (simp add: bit_simps)
    qed
  qed
next
  assume h: "drop_bit 1 a = drop_bit 1 b"
  have "drop_bit 3 (drop_bit 1 v) = drop_bit 4 v" for v :: u8 by (rule bit_word_eqI) (simp add: bit_simps)
  then show "drop_bit 4 a = drop_bit 4 b" using h by metis
qed simp

text \<open>
  Nothing of a header is lost in print: two IP headers that print the same are the same, and
  two TCP headers that print the same differ at most in the nonce bit, which is not printed.
\<close>

lemma printed_header_determined:
  "(out (print_ip_header i w) = out (print_ip_header i' w) \<longleftrightarrow> i = i') \<and>
   (out (print_tcp_header h w) = out (print_tcp_header h' w) \<longleftrightarrow>
     h\<lparr>hdrlen_rsvd_nonce := drop_bit 1 (hdrlen_rsvd_nonce h)\<rparr> =
     h'\<lparr>hdrlen_rsvd_nonce := drop_bit 1 (hdrlen_rsvd_nonce h')\<rparr>)"
proof
  show "out (print_ip_header i w) = out (print_ip_header i' w) \<longleftrightarrow> i = i'"
    by (cases i; cases i') (auto simp: print_ip_header_def Let_def inet_ntoa_inject word_uint_eq_iff)
  show "out (print_tcp_header h w) = out (print_tcp_header h' w) \<longleftrightarrow>
     h\<lparr>hdrlen_rsvd_nonce := drop_bit 1 (hdrlen_rsvd_nonce h)\<rparr> =
     h'\<lparr>hdrlen_rsvd_nonce := drop_bit 1 (hdrlen_rsvd_nonce h')\<rparr>"
    using printed_bits [of "hdrlen_rsvd_nonce h" "hdrlen_rsvd_nonce h'"]
    by (cases h; cases h') (auto simp: print_tcp_header_def Let_def simp flip: word_uint_eq_iff)
qed

end
