(* ===== verification/File_Testing.thy ===== *)
theory File_Testing
  imports File_IO_Testing
begin

text \<open>
  The former file backend, \<^verbatim>\<open>src/sim_dpi/file_testing_lib.cpp\<close>: functions on the socket state in
  place of a class, with their own copy of the capture file code. All they touch of the state is two
  members, \<open>send_file\<close> and \<open>recv_file\<close>, which the present \<open>struct sock_state\<close> does not have; the
  functions are given here on the pair of these two streams. Shown: every sequence of calls does the
  same as the class \<open>FileIOTestingLib\<close> that replaced them, down to the values the calls return, and
  where the start differs.
\<close>

section \<open>State and operations\<close>

text \<open>The members \<open>send_file\<close> and \<open>recv_file\<close>, in this order.\<close>

type_synonym fd_files = "cfile \<times> cfile"

definition fd_writePCAPHeader :: "cfile \<Rightarrow> cfile" where
  "fd_writePCAPHeader f =
     (let hdr = \<lparr>magic_number = 0xa1b2c3d4, version_major = 2, version_minor = 4, thiszone = 0,
                 sigfigs = 0, snaplen = 65535, network = 1\<rparr>;
          f = snd (fwrite (bytes_of 4 (magic_number hdr)) f);
          f = snd (fwrite (bytes_of 2 (version_major hdr)) f);
          f = snd (fwrite (bytes_of 2 (version_minor hdr)) f);
          f = snd (fwrite (bytes_of 4 (thiszone hdr)) f);
          f = snd (fwrite (bytes_of 4 (sigfigs hdr)) f);
          f = snd (fwrite (bytes_of 4 (snaplen hdr)) f)
      in snd (fwrite (bytes_of 4 (network hdr)) f))"

definition init_with_fds :: "fopen \<Rightarrow> fd_files res" where
  "init_with_fds fopen =
     (case fopen ''hw_to_sw.txt'' ''ab+'' of
        None \<Rightarrow> Inl (Exit ''Failed to open hw to sw file'' 1)
      | Some sf \<Rightarrow>
          (case fopen ''sw_to_hw.txt'' ''ab+'' of
             None \<Rightarrow> Inl (Exit ''Failed to open sw to hw file'' 1)
           | Some rf \<Rightarrow>
               let sf = fd_writePCAPHeader sf;
                   rf = fd_writePCAPHeader rf
               in Inr (sf, rf)))"

text \<open>A short read of the packet header leaves \<open>len\<close> indeterminate, and it is used.\<close>

definition fd_read_pcap_record :: "cfile \<Rightarrow> mem \<Rightarrow> world \<Rightarrow> (int \<times> mem \<times> cfile \<times> world) res" where
  "fd_read_pcap_record pcap_file buffer w =
     (let (hb, pcap_file) = fread 16 pcap_file;
          read_len = int_of_size (length hb)
      in if read_len = 0 then Inr (0, buffer, pcap_file, w)
      else if read_len \<noteq> 16 then Inl Uninitialised
      else
        let l = len (pcap_pkthdr_of_bytes hb);
            w = say ''Packet len is %d'' [sint l] w;
            (bs, pcap_file) = fread (unat l) pcap_file;
            read_len = int_of_size (length bs)
        in
        bindE (store buffer 0 bs) (\<lambda>buffer.
        let w = (if (word_of_int read_len :: u32) \<noteq> l
                 then say ''Error reading pcap packet capture'' [] w else w)
        in Inr (read_len, buffer, pcap_file, w)))"

definition fd_write_pcap_record ::
  "sysenv \<Rightarrow> cfile \<Rightarrow> mem \<Rightarrow> u32 \<Rightarrow> world \<Rightarrow> (int \<times> cfile \<times> world) res" where
  "fd_write_pcap_record env pcap_file buffer buffer_len w =
     (let total_packet_len = buffer_len;
          pcap_hdr = \<lparr>ts_sec = ucast (tod_sec env), ts_usec = ucast (tod_usec env),
                      caplen = total_packet_len, len = total_packet_len\<rparr>;
          (n, pcap_file) = fwrite (pcap_pkthdr_bytes pcap_hdr) pcap_file;
          write_len = int_of_size n;
          w = (if write_len \<noteq> 16 then say ''Error writing pcap packet header'' [] w else w)
      in
      bindE (load_bytes (unat total_packet_len) buffer 0) (\<lambda>bs.
      let (n, pcap_file) = fwrite bs pcap_file;
          write_len = int_of_size n;
          w = (if (word_of_int write_len :: u32) \<noteq> total_packet_len
               then say ''Error writing pcap packet capture'' [] w else w)
      in Inr (write_len, pcap_file, w)))"

text \<open>The length goes through a variable of type \<open>uint32_t\<close> and is returned as an \<open>int\<close>.\<close>

definition get_buffer_from_fd ::
  "fd_files \<Rightarrow> mem \<Rightarrow> world \<Rightarrow> (int \<times> mem \<times> world \<times> fd_files) res" where
  "get_buffer_from_fd = (\<lambda>(sf, rf) buffer w.
     bindE (fd_read_pcap_record rf buffer w) (\<lambda>(n, buffer, rf, w).
     let packet_len = word_of_int n :: u32 in
     Inr (sint packet_len, buffer, w, (sf, rf))))"

definition put_buffer_to_fd ::
  "sysenv \<Rightarrow> fd_files \<Rightarrow> mem \<Rightarrow> u32 \<Rightarrow> world \<Rightarrow> (int \<times> world \<times> fd_files) res" where
  "put_buffer_to_fd env = (\<lambda>(sf, rf) buffer buffer_len w.
     bindE (fd_write_pcap_record env sf buffer buffer_len w)
       (\<lambda>(write_len, sf, w). Inr (write_len, w, (sf, rf))))"

section \<open>Equivalence with the class\<close>

text \<open>
  What a call returns to its caller: the packet of a request, and the \<open>int\<close> that is returned for a
  packet handed over. \<open>io_log\<close> and \<open>fd_log\<close> run a sequence of calls and list what they return. A
  request to the functions gets a length and a filled array; its packet is the filled part.
\<close>

datatype answer = Got mem | Took int

fun io_log :: "'b get_buf_fr_io \<Rightarrow> 'b put_buf_on_io \<Rightarrow> sock_state \<Rightarrow> io_op list \<Rightarrow> world \<times> 'b \<Rightarrow>
    (answer list \<times> world \<times> 'b) res" where
  "io_log get put ss [] s = Inr ([], s)"
| "io_log get put ss (GetOp env # ops) s =
     bindE (alive (fst s)) (\<lambda>_.
     bindE (get env ss s) (\<lambda>(p, s).
     bindE (io_log get put ss ops s) (\<lambda>(as, s). Inr (Got p # as, s))))"
| "io_log get put ss (PutOp env pkt # ops) s =
     bindE (alive (fst s)) (\<lambda>_.
     bindE (put env ss pkt s) (\<lambda>(n, s).
     bindE (io_log get put ss ops s) (\<lambda>(as, s). Inr (Took n # as, s))))"

fun fd_log :: "io_op list \<Rightarrow> world \<times> fd_files \<Rightarrow> (answer list \<times> world \<times> fd_files) res" where
  "fd_log [] s = Inr ([], s)"
| "fd_log (GetOp env # ops) (w, s) =
     bindE (get_buffer_from_fd s (stack_garbage env) w) (\<lambda>(n, buffer, w, s).
     bindE (fd_log ops (w, s)) (\<lambda>(as, s). Inr (Got (take (nat n) buffer) # as, s)))"
| "fd_log (PutOp env pkt # ops) (w, s) =
     bindE (put_buffer_to_fd env s pkt (of_nat (length pkt)) w) (\<lambda>(n, w, s).
     bindE (fd_log ops (w, s)) (\<lambda>(as, s). Inr (Took n # as, s)))"

definition as_file_io :: "fd_files \<Rightarrow> FileIOTestingLib" where
  "as_file_io s = \<lparr>send_file = fst s, recv_file = snd s\<rparr>"

lemma fd_writePCAPHeader_eq: "fd_writePCAPHeader f = writePCAPHeader f"
  by (simp add: fd_writePCAPHeader_def writePCAPHeader_def pcap_header_def)

lemma fd_read_pcap_record_eq: "fd_read_pcap_record f buffer w = read_pcap_record f buffer w"
proof -
  obtain hb f1 where r1: "fread 16 f = (hb, f1)" by force
  have "length hb \<le> 16" using fread_length [of 16 f] r1 by simp
  then have h: "int_of_size (length hb) = int (length hb)" by simp
  obtain bs f2 where r2: "fread (unat (len (pcap_pkthdr_of_bytes hb))) f1 = (bs, f2)" by force
  show ?thesis by (simp add: fd_read_pcap_record_def read_pcap_record_def r1 r2 h store_def not_less)
qed

lemma fd_write_pcap_record_eq: "fd_write_pcap_record env f buffer l w = write_pcap_record env f buffer l w"
  by (simp add: fd_write_pcap_record_def write_pcap_record_def Let_def split: prod.splits)

lemma sint_of_small: "0 \<le> n \<Longrightarrow> n < 2 ^ 31 \<Longrightarrow> sint (word_of_int n :: u32) = n"
  by (simp add: sint_sbintrunc' signed_take_bit_int_eq_self)

lemma unat_of_small: "0 \<le> n \<Longrightarrow> n < 2 ^ 31 \<Longrightarrow> unat (word_of_int n :: u32) = nat n"
  by (simp add: unat_eq_nat_uint uint_word_of_int)

lemma get_fd_simulates:
  assumes "length buffer < 2 ^ 31" "stack_garbage env = buffer"
  shows "FileIO_get_buf_fr_io env ss (w, as_file_io s) =
    bindE (get_buffer_from_fd s buffer w) (\<lambda>(n, buffer, w, s). Inr (take (nat n) buffer, w, as_file_io s))"
proof (cases "read_pcap_record (snd s) buffer w")
  case (Inr r)
  obtain n buf f w' where r: "r = (n, buf, f, w')" by (cases r) auto
  have "0 \<le> n" "n < 2 ^ 31" using read_pcap_record_frame Inr r assms(1) by fastforce+
  then show ?thesis
    using Inr r assms(2) sint_of_small [of n] unat_of_small [of n]
    by (cases s) (simp add: get_buffer_from_fd_def FileIO_get_buf_fr_io_def as_file_io_def fd_read_pcap_record_eq)
qed (use assms in \<open>cases s, simp add: get_buffer_from_fd_def FileIO_get_buf_fr_io_def as_file_io_def fd_read_pcap_record_eq\<close>)

lemma put_fd_simulates:
  "FileIO_put_buf_on_io env ss pkt (w, as_file_io s) =
   bindE (put_buffer_to_fd env s pkt (of_nat (length pkt)) w) (\<lambda>(n, w, s). Inr (n, w, as_file_io s))"
  by (cases s; cases "write_pcap_record env (fst s) pkt (of_nat (length pkt)) w")
    (auto simp: put_buffer_to_fd_def FileIO_put_buf_on_io_def as_file_io_def fd_write_pcap_record_eq split: prod.splits)

lemma FileIO_put_life:
  "FileIO_put_buf_on_io env ss pkt (w, b) = Inr (n, w', b') \<Longrightarrow> backend_life w' = backend_life w"
  by (auto simp: FileIO_put_buf_on_io_def res_simps dest!: write_pcap_record_frame)

lemma fd_log_simulates:
  assumes "list_all (\<lambda>op. case op of GetOp env \<Rightarrow> sysenv_wf env | PutOp _ _ \<Rightarrow> True) ops"
    and "backend_life w \<noteq> Dead"
  shows "bindE (fd_log ops (w, s)) (\<lambda>(as, w, s). Inr (as, w, as_file_io s)) =
      io_log FileIO_get_buf_fr_io FileIO_put_buf_on_io ss ops (w, as_file_io s)"
  using assms
proof (induction ops arbitrary: w s)
  case (Cons op ops)
  show ?case
  proof (cases op)
    case (GetOp env)
    then have l: "length (stack_garbage env) < 2 ^ 31" using Cons.prems by (simp add: sysenv_wf_def)
    note g = get_fd_simulates [OF l refl, of ss w s]
    show ?thesis
    proof (cases "get_buffer_from_fd s (stack_garbage env) w")
      case (Inr r)
      obtain n buf w1 s1 where r: "r = (n, buf, w1, s1)" by (cases r) auto
      then have "backend_life w1 \<noteq> Dead" using file_io.get_life [of env ss w "as_file_io s"] g Inr Cons.prems(2) by simp
      from Cons.IH [OF _ this, of s1] Cons.prems show ?thesis
        using GetOp Inr r g by (cases "fd_log ops (w1, s1)") (auto dest: sym)
    qed (use g GetOp Cons.prems(2) in simp)
  next
    case (PutOp env pkt)
    note p = put_fd_simulates [of env ss pkt w s]
    show ?thesis
    proof (cases "put_buffer_to_fd env s pkt (of_nat (length pkt)) w")
      case (Inr r)
      obtain n w1 s1 where r: "r = (n, w1, s1)" by (cases r) auto
      then have "backend_life w1 \<noteq> Dead" using FileIO_put_life [of env ss pkt w "as_file_io s"] p Inr Cons.prems(2) by simp
      from Cons.IH [OF _ this, of s1] Cons.prems show ?thesis
        using PutOp Inr r p by (cases "fd_log ops (w1, s1)") (auto dest: sym)
    qed (use p PutOp Cons.prems(2) in simp)
  qed
qed simp

text \<open>
  C18: the former file backend and the class that replaced it do the same. Any sequence of requests
  and packets gives the same packets, the same returned numbers, the same events and the same files,
  faults included. At the start both open the same files and leave the same headers in them; when the
  first file cannot be opened both exit with status 1 and the same message, and when the second
  cannot be opened both exit with status 1, but the messages differ in one character.
\<close>

theorem fd_backend_equivalent:
  assumes "list_all (\<lambda>op. case op of GetOp env \<Rightarrow> sysenv_wf env | PutOp _ _ \<Rightarrow> True) ops"
    and "backend_life w \<noteq> Dead"
  shows "bindE (fd_log ops (w, s)) (\<lambda>(as, w, s). Inr (as, w, as_file_io s)) =
      io_log FileIO_get_buf_fr_io FileIO_put_buf_on_io ss ops (w, as_file_io s) \<and>
    (init_with_fds fopen = Inr s \<longleftrightarrow>
      FileIOTestingLib_new fopen ''hw_to_sw.txt'' ''sw_to_hw.txt'' = Inr (as_file_io s)) \<and>
    (fopen ''hw_to_sw.txt'' ''ab+'' = None \<longrightarrow>
      init_with_fds fopen = Inl (Exit ''Failed to open hw to sw file'' 1) \<and>
      FileIOTestingLib_new fopen ''hw_to_sw.txt'' ''sw_to_hw.txt'' = Inl (Exit ''Failed to open hw to sw file'' 1)) \<and>
    (fopen ''hw_to_sw.txt'' ''ab+'' \<noteq> None \<and> fopen ''sw_to_hw.txt'' ''ab+'' = None \<longrightarrow>
      init_with_fds fopen = Inl (Exit ''Failed to open sw to hw file'' 1) \<and>
      FileIOTestingLib_new fopen ''hw_to_sw.txt'' ''sw_to_hw.txt'' = Inl (Exit ''Failed to open sw to hw_file'' 1))"
  using fd_log_simulates [OF assms]
  by (cases s) (auto simp: init_with_fds_def FileIOTestingLib_new_def as_file_io_def fd_writePCAPHeader_eq
      split: option.splits)

text \<open>The example: a packet is handed over, then a record of two bytes is read.\<close>

theorem fd_backend_equivalent_witness:
  "\<exists>s'. io_log FileIO_get_buf_fr_io FileIO_put_buf_on_io ex_ss [PutOp ex_env [1, 2], GetOp ex_env]
     (\<lparr>backend_life = Alive, out = []\<rparr>,
      as_file_io (\<lparr>contents = [], fpos = 0, feof = False, room = 100\<rparr>,
        \<lparr>contents = [0, 0, 0, 0, 0, 0, 0, 0, 2, 0, 0, 0, 2, 0, 0, 0, 8, 9], fpos = 0, feof = False, room = 0\<rparr>)) =
   Inr ([Took 2, Got [8, 9]], s') \<and>
   FileIOTestingLib_new (\<lambda>n _. if n = ''hw_to_sw.txt'' then Some ex_file else None) ''hw_to_sw.txt'' ''sw_to_hw.txt'' =
     Inl (Exit ''Failed to open sw to hw_file'' 1)"
proof -
  let ?ops = "[PutOp ex_env [1, 2], GetOp ex_env]" and ?w = "\<lparr>backend_life = Alive, out = []\<rparr>"
  let ?s = "(\<lparr>contents = [], fpos = 0, feof = False, room = 100\<rparr>,
    \<lparr>contents = [0, 0, 0, 0, 0, 0, 0, 0, 2, 0, 0, 0, 2, 0, 0, 0, 8, 9], fpos = 0, feof = False, room = 0\<rparr>)"
  let ?fopen = "\<lambda>n (_ :: string). if n = ''hw_to_sw.txt'' then Some ex_file else None"
  have "(case fd_log ?ops (?w, ?s) of Inl _ \<Rightarrow> False | Inr (as, _) \<Rightarrow> as = [Took 2, Got [8, 9]])" by code_simp
  then obtain w' s' where r: "fd_log ?ops (?w, ?s) = Inr ([Took 2, Got [8, 9]], w', s')"
    by (auto split: sum.splits)
  have ok: "list_all (\<lambda>op. case op of GetOp env \<Rightarrow> sysenv_wf env | PutOp _ _ \<Rightarrow> True) ?ops" using ex_wf(2) by simp
  note e = fd_backend_equivalent [of ?ops ?w ?s ex_ss ?fopen, OF ok]
  have "io_log FileIO_get_buf_fr_io FileIO_put_buf_on_io ex_ss ?ops (?w, as_file_io ?s) =
      bindE (fd_log ?ops (?w, ?s)) (\<lambda>(as, w, s). Inr (as, w, as_file_io s))"
    using e by (simp del: io_log.simps fd_log.simps)
  also have "\<dots> = Inr ([Took 2, Got [8, 9]], w', as_file_io s')" by (simp add: r del: fd_log.simps)
  finally show ?thesis using e by (intro exI conjI) (assumption | simp del: io_log.simps fd_log.simps)+
qed

end
