(* ===== verification/Raw_Testing.thy ===== *)
theory Raw_Testing
  imports DPI_Backend
begin

text \<open>
  The raw socket backend of \<^verbatim>\<open>src/sim_dpi/raw_testing_lib.cpp\<close>, which exchanges packets with the
  host's own network stack. The system calls are parameters, the fields of \<open>sysos\<close>, functions on
  the state of the kernel: what the code relies on of them is stated where it is used. A failing
  call is followed by \<open>perror\<close>, whose text is not modelled, and \<open>exit\<close>.
\<close>

section \<open>System calls\<close>

definition AF_PACKET :: u16 where "AF_PACKET = 17"
definition SOCK_DGRAM :: int where "SOCK_DGRAM = 2"
definition SOCK_RAW :: int where "SOCK_RAW = 3"
definition ETH_P_IP :: u16 where "ETH_P_IP = 0x0800"
definition IPPROTO_RAW :: int where "IPPROTO_RAW = 255"
definition IPPROTO_IP :: int where "IPPROTO_IP = 0"
definition IP_HDRINCL :: int where "IP_HDRINCL = 3"
definition MSG_DONTWAIT :: int where "MSG_DONTWAIT = 0x40"
definition EAGAIN :: int where "EAGAIN = 11"
definition EWOULDBLOCK :: int where "EWOULDBLOCK = 11"
definition IFNAMSIZ :: nat where "IFNAMSIZ = 16"

record sockaddr_ll =
  sll_family :: u16
  sll_protocol :: u16
  sll_ifindex :: int

text \<open>What \<open>recvfrom\<close> gives: the bytes it stored, or -1 and \<open>errno\<close>.\<close>

datatype recv_result = Received mem | Failed int

text \<open>
  \<open>os_ifindex\<close> is \<open>ioctl(..., SIOCGIFINDEX, ...)\<close> on a request that carries the name, \<open>None\<close>
  where it returns -1. The others return what the call returns.
\<close>

record 'k sysos =
  os_socket :: "int \<Rightarrow> int \<Rightarrow> int \<Rightarrow> 'k \<Rightarrow> int \<times> 'k"
  os_ifindex :: "int \<Rightarrow> string \<Rightarrow> 'k \<Rightarrow> int option \<times> 'k"
  os_bind :: "int \<Rightarrow> sockaddr_ll \<Rightarrow> 'k \<Rightarrow> int \<times> 'k"
  os_setsockopt :: "int \<Rightarrow> int \<Rightarrow> int \<Rightarrow> int \<Rightarrow> 'k \<Rightarrow> int \<times> 'k"
  os_recvfrom :: "int \<Rightarrow> nat \<Rightarrow> int \<Rightarrow> 'k \<Rightarrow> recv_result \<times> 'k"
  os_sendto :: "int \<Rightarrow> mem \<Rightarrow> int \<Rightarrow> sockaddr_in \<Rightarrow> 'k \<Rightarrow> int \<times> 'k"

section \<open>Operations\<close>

definition get_netif_index :: "'k sysos \<Rightarrow> int \<Rightarrow> string \<Rightarrow> 'k \<Rightarrow> (int \<times> 'k) res" where
  "get_netif_index os sock if_name k =
     (if length if_name < IFNAMSIZ then
        let (r, k) = os_ifindex os sock if_name k in
        (case r of None \<Rightarrow> Inl (Exit ''ioctl'' 1) | Some ifindex \<Rightarrow> Inr (ifindex, k))
      else Inl (Exit ''interface name is too long'' 1))"

definition init_with_raw_socket :: "'k sysos \<Rightarrow> sock_state \<Rightarrow> 'k \<Rightarrow> (sock_state \<times> 'k) res" where
  "init_with_raw_socket os instance_state k =
     (let (s, k) = os_socket os (uint AF_PACKET) SOCK_DGRAM (uint (htons ETH_P_IP)) k;
          instance_state = instance_state\<lparr>recv_sock := s\<rparr>
      in if recv_sock instance_state = -1 then Inl (Exit ''Failed to create socket'' 1)
      else
        bindE (get_netif_index os (recv_sock instance_state) ''lo'' k) (\<lambda>(ifindex, k).
        let addr = \<lparr>sll_family = AF_PACKET, sll_protocol = htons ETH_P_IP, sll_ifindex = ifindex\<rparr>;
            (r, k) = os_bind os (recv_sock instance_state) addr k
        in if r = -1 then Inl (Exit ''bind'' 1)
        else
          let (s, k) = os_socket os (uint AF_INET) SOCK_RAW IPPROTO_RAW k;
              instance_state = instance_state\<lparr>send_sock := s\<rparr>
          in if send_sock instance_state = -1 then Inl (Exit ''Failed to create send socket'' 1)
          else
            let (r, k) = os_setsockopt os (send_sock instance_state) IPPROTO_IP IP_HDRINCL 1 k
            in if r < 0 then Inl (Exit ''Error setting IP_HDRINCL for send socket'' 0)
               else Inr (instance_state, k)))"

text \<open>
  \<open>recvfrom\<close> is told that the buffer has room for 65536 bytes, whatever the caller's array is.
\<close>

definition get_buffer_from_raw_socket ::
  "'k sysos \<Rightarrow> sock_state \<Rightarrow> mem \<Rightarrow> 'k \<Rightarrow> (int \<times> mem \<times> 'k) res" where
  "get_buffer_from_raw_socket os instance_state buffer k =
     (let (r, k) = os_recvfrom os (recv_sock instance_state) 65536 MSG_DONTWAIT k in
      case r of
        Failed errno \<Rightarrow>
          if errno = EAGAIN \<or> errno = EWOULDBLOCK then Inr (0, buffer, k) else Inl (Exit [] 1)
      | Received bs \<Rightarrow>
          bindE (store buffer 0 bs) (\<lambda>buffer. Inr (int (length bs), buffer, k)))"

definition put_buffer_to_raw_socket ::
  "'k sysos \<Rightarrow> sock_state \<Rightarrow> mem \<Rightarrow> u32 \<Rightarrow> 'k \<Rightarrow> (int \<times> 'k) res" where
  "put_buffer_to_raw_socket os instance_state buffer buffer_len k =
     (let dest_address = dest_addr instance_state;
          total_packet_len = buffer_len
      in
      bindE (load_bytes (unat total_packet_len) buffer 0) (\<lambda>bs.
      let (bytes, k) = os_sendto os (send_sock instance_state) bs 0 dest_address k in
      if bytes < 0 then Inl (Exit ''Error sending'' 0) else Inr (bytes, k)))"

section \<open>Receiving\<close>

text \<open>
  What the documentation of packet sockets says of a \<open>recvfrom\<close> that does not wait: with \<open>q\<close> the
  packets that have arrived, it fails with \<open>EAGAIN\<close> when there are none, otherwise it stores the
  first, cut to the size asked for, and removes it.
\<close>

definition recv_law :: "'k sysos \<Rightarrow> ('k \<Rightarrow> mem list) \<Rightarrow> bool" where
  "recv_law os q \<longleftrightarrow> (\<forall>s n k. case q k of
       [] \<Rightarrow> os_recvfrom os s n MSG_DONTWAIT k = (Failed EAGAIN, k)
     | p # ps \<Rightarrow> fst (os_recvfrom os s n MSG_DONTWAIT k) = Received (take n p) \<and>
                 q (snd (os_recvfrom os s n MSG_DONTWAIT k)) = ps)"

lemma recv_law_at:
  "recv_law os q \<Longrightarrow> case q k of
       [] \<Rightarrow> os_recvfrom os s n MSG_DONTWAIT k = (Failed EAGAIN, k)
     | p # ps \<Rightarrow> fst (os_recvfrom os s n MSG_DONTWAIT k) = Received (take n p) \<and>
                 q (snd (os_recvfrom os s n MSG_DONTWAIT k)) = ps"
  unfolding recv_law_def by blast

lemma recv_law_Nil:
  "recv_law os q \<Longrightarrow> q k = [] \<Longrightarrow> os_recvfrom os s n MSG_DONTWAIT k = (Failed EAGAIN, k)"
  using recv_law_at [of os q s n k] by simp

lemma recv_law_Cons:
  assumes "recv_law os q" "q k = p # ps"
  obtains k' where "os_recvfrom os s n MSG_DONTWAIT k = (Received (take n p), k')" "q k' = ps"
  using recv_law_at [OF assms(1), of s n k] assms(2) that
  by (cases "os_recvfrom os s n MSG_DONTWAIT k") simp

text \<open>Polls in a row, each with a buffer of its own; what each found.\<close>

fun raw_polls :: "'k sysos \<Rightarrow> sock_state \<Rightarrow> mem list \<Rightarrow> 'k \<Rightarrow> (mem list \<times> 'k) res" where
  "raw_polls os ss [] k = Inr ([], k)"
| "raw_polls os ss (buffer # bufs) k =
     bindE (get_buffer_from_raw_socket os ss buffer k) (\<lambda>(n, buffer, k).
     bindE (raw_polls os ss bufs k) (\<lambda>(ps, k). Inr (take (nat n) buffer # ps, k)))"

lemma get_raw_empty:
  "recv_law os q \<Longrightarrow> q k = [] \<Longrightarrow> get_buffer_from_raw_socket os ss buffer k = Inr (0, buffer, k)"
  by (simp add: get_buffer_from_raw_socket_def recv_law_Nil)

lemma get_raw_packet:
  assumes "recv_law os q" "q k = p # ps"
  shows "\<exists>k'. q k' = ps \<and> get_buffer_from_raw_socket os ss buffer k =
    (if length (take 65536 p) \<le> length buffer
     then Inr (int (length (take 65536 p)), take 65536 p @ drop (length (take 65536 p)) buffer, k')
     else Inl OutOfBounds)"
proof -
  obtain k' where "os_recvfrom os (recv_sock ss) 65536 MSG_DONTWAIT k = (Received (take 65536 p), k')" "q k' = ps"
    using recv_law_Cons [OF assms] by metis
  then show ?thesis
    by (intro exI [of _ k']) (simp add: get_buffer_from_raw_socket_def store_def del: length_take)
qed

text \<open>
  C22: with buffers of at least 65536 bytes, polls of the raw socket return the packets that have
  arrived, each once and in order, cut to 65536 bytes, then nothing; no poll faults or ends the
  process. With a smaller buffer the first longer packet is stored beyond its end.
\<close>

theorem raw_polls_deliver:
  assumes law: "recv_law os q"
  shows "(list_all (\<lambda>b. 65536 \<le> length b) bufs \<longrightarrow>
      (\<exists>k'. raw_polls os ss bufs k =
         Inr (map (take 65536) (take (length bufs) (q k)) @ replicate (length bufs - length (q k)) [], k') \<and>
       q k' = drop (length bufs) (q k))) \<and>
    (\<forall>buffer p ps. q k = p # ps \<and> length buffer < min 65536 (length p) \<longrightarrow>
       get_buffer_from_raw_socket os ss buffer k = Inl OutOfBounds)"
proof (rule conjI)
  show "list_all (\<lambda>b. 65536 \<le> length b) bufs \<longrightarrow>
      (\<exists>k'. raw_polls os ss bufs k =
         Inr (map (take 65536) (take (length bufs) (q k)) @ replicate (length bufs - length (q k)) [], k') \<and>
       q k' = drop (length bufs) (q k))"
  proof (induction bufs arbitrary: k)
    case (Cons buffer bufs)
    show ?case
    proof (cases "q k")
      case Nil
      with Cons [of k] get_raw_empty [OF law Nil, of ss buffer] show ?thesis by auto
    next
      case p: (Cons p ps)
      obtain k1 where "q k1 = ps" and
        g: "65536 \<le> length buffer \<Longrightarrow> get_buffer_from_raw_socket os ss buffer k =
          Inr (int (length (take 65536 p)), take 65536 p @ drop (length (take 65536 p)) buffer, k1)"
        using get_raw_packet [OF law p, of ss buffer] by (auto simp del: length_take) (metis length_take min.cobounded2 order_trans)
      with Cons [of k1] p show ?thesis by (auto simp: min_def split: if_splits)
    qed
  qed simp
  show "\<forall>buffer p ps. q k = p # ps \<and> length buffer < min 65536 (length p) \<longrightarrow>
       get_buffer_from_raw_socket os ss buffer k = Inl OutOfBounds"
    using get_raw_packet [OF law] by (fastforce simp: min_def split: if_splits)
qed

text \<open>A kernel whose state is the list of packets that have arrived.\<close>

definition queue_os :: "mem list sysos" where
  "queue_os =
     \<lparr>os_socket = (\<lambda>_ _ _ k. (3, k)), os_ifindex = (\<lambda>_ _ k. (Some 1, k)), os_bind = (\<lambda>_ _ k. (0, k)),
      os_setsockopt = (\<lambda>_ _ _ _ k. (0, k)),
      os_recvfrom = (\<lambda>_ n _ k. case k of [] \<Rightarrow> (Failed EAGAIN, []) | p # ps \<Rightarrow> (Received (take n p), ps)),
      os_sendto = (\<lambda>_ bs _ _ k. (int (length bs), k @ [bs]))\<rparr>"

lemma recv_law_queue_os: "recv_law queue_os id"
  by (simp add: recv_law_def queue_os_def split: list.split)

theorem raw_polls_deliver_witness:
  "(\<exists>k'. raw_polls queue_os ex_ss (replicate 3 (replicate 65536 0)) [[1, 2], [3]] = Inr ([[1, 2], [3], []], k')) \<and>
   get_buffer_from_raw_socket queue_os ex_ss [0] [[1, 2], [3]] = Inl OutOfBounds"
  using raw_polls_deliver [OF recv_law_queue_os, of "replicate 3 (replicate 65536 0)" ex_ss "[[1, 2], [3]]"]
  by (auto simp: list_all_iff)

section \<open>Exit status\<close>

text \<open>
  The status that a failing start leaves: 0 when the option \<open>IP_HDRINCL\<close> could not be set, 1 in
  all other cases. \<open>put_buffer_to_raw_socket\<close> leaves 0 as well when the packet could not be sent.
\<close>

lemma get_netif_index_exit: "get_netif_index os s name k = Inl e \<Longrightarrow> \<exists>msg. e = Exit msg 1"
  by (auto simp: get_netif_index_def split: if_splits prod.splits option.splits)

lemma init_with_raw_socket_exit_0:
  assumes "init_with_raw_socket os ss k = Inl (Exit msg 0)"
  shows "\<exists>s k'. fst (os_setsockopt os s IPPROTO_IP IP_HDRINCL 1 k') < 0"
proof -
  obtain s1 k1 where 1: "os_socket os (uint AF_PACKET) SOCK_DGRAM (uint (htons ETH_P_IP)) k = (s1, k1)" by force
  with assms obtain ix k2 where 2: "s1 \<noteq> -1" "get_netif_index os s1 ''lo'' k1 = Inr (ix, k2)"
    by (cases "get_netif_index os s1 ''lo'' k1") (auto simp: init_with_raw_socket_def Let_def dest: get_netif_index_exit split: if_splits)
  obtain r k3 where 3: "os_bind os s1 \<lparr>sll_family = AF_PACKET, sll_protocol = htons ETH_P_IP, sll_ifindex = ix\<rparr> k2 = (r, k3)"
    by force
  obtain s2 k4 where 4: "os_socket os (uint AF_INET) SOCK_RAW IPPROTO_RAW k3 = (s2, k4)" by force
  obtain v k5 where 5: "os_setsockopt os s2 IPPROTO_IP IP_HDRINCL 1 k4 = (v, k5)" by force
  have "v < 0" using assms 1 2 3 4 5 by (simp add: init_with_raw_socket_def Let_def split: if_splits)
  with 5 show ?thesis by (metis fst_conv)
qed

lemma put_raw_returns:
  assumes "put_buffer_to_raw_socket os ss buffer n k = Inr (m, k')"
  shows "unat n \<le> length buffer \<and>
    os_sendto os (send_sock ss) (take (unat n) buffer) 0 (dest_addr ss) k = (m, k') \<and> 0 \<le> m"
proof -
  obtain v k1 where "os_sendto os (send_sock ss) (take (unat n) buffer) 0 (dest_addr ss) k = (v, k1)" by force
  with assms show ?thesis
    by (auto simp: put_buffer_to_raw_socket_def Let_def load_bytes_def split: if_splits)
qed

end
