(* ===== verification/Spec2Isabelle.thy ===== *)
theory Spec2Isabelle
  imports Checking TCP_Conserve Convert Sim_CPU Printing File_Testing Raw_Testing
begin

text \<open>
  A model of the C++ side of the simulation of the TCP engine, \<^verbatim>\<open>src/sim_dpi\<close>, and the theorems
  that make it correct.

  \<^bold>\<open>The program.\<close> The hardware design (SystemVerilog) is simulated with its network interface and
  its control CPU emulated in C++. On every clock cycle the simulator calls \<open>get_data\<close>, which
  drives the receive interface with the next 32 bytes of a packet, and \<open>put_data\<close> for every 32
  bytes the hardware sends. Packets come from and go to a backend, an object of a class derived
  from \<open>DPITestingLib\<close>: a pair of capture files shared with another process, a capture that is
  replayed and compared as a whole, or a capture that is replayed and compared flow by flow. The
  last one is what the simulation is built with. A packet from the backend that is an ARP request
  is answered by the C++ side itself. Helper functions convert headers, compute checksums and read
  and write capture files.

  \<^bold>\<open>The theories\<close>, in the order of the code they model:

  \<^item> \<open>Prelude\<close>: machine integers as words, memory as byte lists, faults (\<open>res\<close>, \<open>bindE\<close>), the
    little-endian byte codec, the conversion of sizes to \<open>int\<close>, bounds-checked loads and stores, and
    the locale \<open>struct_layout\<close>, which the wire headers, the header of a capture record and the
    header structs of the C library interpret.
  \<^item> \<open>Flows\<close> (\<^verbatim>\<open>flows.h\<close>) and \<open>Netinet\<close> (the C library's headers and \<open>sock_state\<close> of
    \<^verbatim>\<open>testing_utils.h\<close>): structs as records, the headers with their layouts and the lemmas that
    layout and cast are inverse.
  \<^item> \<open>Checksum\<close> and \<open>Convert\<close> (\<^verbatim>\<open>testing_utils.cpp\<close>): \<open>csum\<close> against the one's complement
    reference, checksum insertion, header conversion and construction, bit vectors, with the layout
    of the hardware's IP header from \<^verbatim>\<open>src/include/packet_struct_pkg.sv\<close>. \<open>Printing\<close>
    has the functions that print headers.
  \<^item> \<open>Host\<close>: C streams with their sticky end-of-file indicator, the events the program causes, the
    lifetime of the object behind the global backend pointer, and \<open>finish_simulation\<close>.
  \<^item> \<open>Pcap_Helpers\<close> (\<^verbatim>\<open>pcap_helpers.cpp\<close>): reading and writing capture files.
  \<^item> \<open>DPI_Backend\<close> (\<^verbatim>\<open>dpi_testing_lib.hpp\<close>): the contract of a backend as the locale \<open>dpi_backend\<close>,
    which every backend and the dispatch interpret, and loops that the backends share;
    \<open>Packet_Compare\<close>: what a comparison of packets should report.
  \<^item> \<open>File_IO_Testing\<close>, \<open>Pcap_Trace_Testing\<close>, \<open>TCP_Mimic\<close> and \<open>TCP_Pcap_Trace_Testing\<close>: the
    backends of the files of the same names; \<open>TCP_Mimic\<close> has the per-flow context with its three
    queues, each an interpretation of the locale \<open>fifo\<close>. \<open>File_Testing\<close> and \<open>Raw_Testing\<close> are the
    two former backends that are no longer selected.
  \<^item> \<open>TCP_Compare\<close>, \<open>TCP_Replay\<close>, \<open>TCP_Conserve\<close> and \<open>TCP_Check\<close>: what the flow-aware backend does
    over whole runs. \<open>TCP_Replay\<close> has an abstract replayer (the relation \<open>replay_step\<close>) that the
    backend refines as long as the stack byte described below is right; \<open>TCP_Conserve\<close> has what holds
    whatever that byte is; \<open>TCP_Compare\<close> treats one flow, \<open>TCP_Check\<close> all flows of a run.
  \<^item> \<open>ARP\<close> (\<open>handle_arp\<close> of \<^verbatim>\<open>testing_utils.cpp\<close>), \<open>Network_Side\<close> (\<^verbatim>\<open>sim_network_side_queue.cpp\<close>),
    \<open>Simulation\<close> (dispatch, initialisation, reachable states), \<open>Delivery\<close> (the receive direction as
    a whole, from the trace to the frames the hardware collects) and \<open>Checking\<close> (both directions: the
    simulation as a test of the hardware).
  \<^item> \<open>Sim_CPU\<close> (\<^verbatim>\<open>sim_cpu.cpp\<close>): the announcement of new flows.

  \<^bold>\<open>State and effects.\<close> An operation takes the world (events so far, life of the backend object)
  and its own state and returns both, or a fault. A fault is undefined behaviour of the C++ program
  (access outside an object or to a dead one, use of an indeterminate number, \<open>front\<close> of an empty
  queue) or a call of \<open>exit\<close>, with the text given to \<open>perror\<close> or \<open>stderr\<close> before it. What a call takes from outside (an uninitialised stack buffer, the
  time, the iteration order of a hash table) is in \<open>sysenv\<close>; opening files is the parameter
  \<open>fopen\<close>, Boost's hash functions, socket calls and the undefined member \<open>check_my_ack\<close> are
  parameters too.

  \<^bold>\<open>The stack byte.\<close> \<open>get_buf_fr_io\<close> of the flow-aware backend (line 35 of
  \<^verbatim>\<open>tcp_pcap_trace_testing_lib.cpp\<close>) reads the IP header length from its array before anything is
  stored there. This is the one use of an indeterminate value that is not a fault of the model: it
  happens in every call, so that as a fault it would leave nothing to say of this backend. The byte
  is what compiled code finds on the stack, an arbitrary value that the environment of the call
  supplies (\<open>stack_ihl\<close>). The theorems that the replay is in order and complete and that the
  comparison is exact hold when it is, in every request, the header length of the packets of the
  trace, and say so as a hypothesis of their own. In \<open>replay_faults_example\<close> it is not and a request
  faults; in \<open>replay_overtakes_example\<close> it is not and a packet overtakes another. That no packet is
  duplicated, invented or lost (\<open>TCP_Conserve\<close>), the invariants of reachable states, that only first
  packets of flows go out while the trace lasts, and everything about the other components needs no
  such hypothesis.

  \<^bold>\<open>What is shown.\<close> Under the hypothesis on the stack byte the flow-aware backend hands out the
  packets of each flow in the order of the trace, all of them, and they reach the hardware as complete
  frames; and over a whole run, in which the hardware's packets have whole headers and the sizes of
  their partners, it reports exactly the differences between what the hardware sends and what the
  trace holds, flow by flow. Whatever the byte, it duplicates, invents and loses no packet. Further:
  the network side delivers and collects exactly the bytes of packets and never misuses its receive
  buffer; the invariants hold in every reachable state; checksums verify; capture files, header
  conversions and data words round-trip; the ARP responder answers exactly the requests it should.
  Several theorems state what the code does where that is not what it means to do: overruns, uses
  of a deleted object, a flow key that depends on the stack, a poll that deafens a stream.

  \<^bold>\<open>Bounds.\<close> No definition of the model uses fuel: loops over lists are structural, the loops that
  read a file or drain two queues are \<open>function\<close>s with a termination proof; \<open>fill_rounds\<close> counts the
  rounds of the loading loop only to state their bound, one per seventeen bytes of the file and one
  more. Results of type \<open>size_t\<close> that the code stores in an \<open>int\<close> wrap at 2^31. \<open>csum\<close> agrees with its reference up
  to 131074 bytes, more than any IP packet. Packets are at most 2048 bytes where the code's buffers
  are. Runs of the replayer need at most two requests per packet of the trace, and those of
  \<open>get_data\<close> at most 130 calls per packet: two requests, each followed by at most 64 beats.

  \<^bold>\<open>Not modelled.\<close> The SystemVerilog design and its DPI modules (their exported functions are
  events), failing \<open>malloc\<close>, the description of \<open>errno\<close> that \<open>perror\<close> adds to its text, and
  concurrency: the simulator calls the C++ side from one thread.
\<close>

section \<open>From the trace file to the hardware\<close>

text \<open>
  C1: from the trace file to the pins. The hypotheses: the trace is well-formed, all its IP headers
  are of the same length, and every call finds that length in the uninitialised byte of the stack
  array that the backend reads as the header length. Then initialisation succeeds, every following
  call of \<open>get_data\<close> returns, and after at most 130 calls per packet of the trace the hardware has
  received complete frames only, all of them for the simulated host, and on each flow exactly the
  frames of the trace to be sent on it, in order, cut to the length their IP headers announce. Without
  the hypothesis on the stack byte a call can fault on such a trace.
\<close>

theorem trace_reaches_hardware:
  assumes f: "fopen TRACE_FILE_PATH ''rb'' = Some f" "pcap_trace_file f ps" "good_trace booted_ss h ps"
    and p: "list_all wire_ok ps" and n: "130 * length ps \<le> length envs"
    and host: "list_all host_ok envs" and stack_byte: "list_all (\<lambda>env. stack_ihl env = h) envs"
  shows "\<exists>c c' fs. init_network_side_state BACKEND fopen (\<lparr>backend_life = NullPtr, out = []\<rparr>, zeroed) = Inr c \<and>
    get_datas virtual_get virtual_put envs c = Inr c' \<and>
    hw_recv (drives (fst c')) = (fs, []) \<and> list_all (for_us booted_ss) fs \<and>
    (\<forall>k. sent_on booted_ss k fs = map clip (sent_on booted_ss k ps))"
proof -
  let ?a = "replay_start ps"
  have e: "list_all (env_ok h) envs" using host stack_byte by (simp add: list_all_env_ok)
  obtain w s b where 1: "init_network_side_state BACKEND fopen (\<lparr>backend_life = NullPtr, out = []\<rparr>, zeroed) = Inr (w, s)"
      "backend_life w = Alive" "drives w = [DriveRx False (replicate 32 0) False 0]" "instance_state s = booted_ss"
      "sim_backend s = TCPPcapTrace b" "replays booted_ss h b ?a"
      "rx_inv (rx_data_if s)" "\<not> delivering (rx_data_if s)"
    using init_from_trace [of fopen f ps h] f by blast
  have rest: "rx_rest (rx_data_if s) = []" using rx_rest_delivering [OF 1(7)] 1(8) by simp
  have "wires_ok ?a" using p by (simp add: wires_ok_def replay_start_def list_all_iff)
  moreover have "shown booted_ss ps ?a (hw_recv (drives w)) []"
    by (simp add: 1(3) hw_recv_def shown_def in_flight_def pending_def replay_start_def)
  ultimately have d: "delivers booted_ss h ps (w, s) ?a" using 1 rest by (simp add: delivers_def)
  have "calls_left s ?a = 130 * length ps" by (simp add: calls_left_def rest work_def replay_start_def)
  with delivers_run [OF booted_wf d e] n obtain w' s' a' where
    "get_datas virtual_get virtual_put envs (w, s) = Inr (w', s')" "delivers booted_ss h ps (w', s') a'"
    "calls_left s' a' = 0"
    by fastforce
  with 1(1) delivers_done [of booted_ss h ps w' s' a'] show ?thesis by auto
qed

definition ex_syn :: mem where
  "ex_syn = our_mac @ drop 6 (ex_pkt TCP_SYN)"

theorem trace_reaches_hardware_witness:
  "\<exists>c c' fs. init_network_side_state BACKEND
      (\<lambda>_ _. Some \<lparr>contents = pcap_header_bytes @ trace_bytes [(0, 0)] [ex_syn], fpos = 0, feof = False, room = 0\<rparr>)
      (\<lparr>backend_life = NullPtr, out = []\<rparr>, zeroed) = Inr c \<and>
    get_datas virtual_get virtual_put (replicate 130 ex_env) c = Inr c' \<and>
    hw_recv (drives (fst c')) = (fs, []) \<and> sent_on booted_ss (pkt_key booted_ss ex_syn) fs = [ex_syn]"
proof -
  let ?f = "\<lparr>contents = pcap_header_bytes @ trace_bytes [(0, 0)] [ex_syn], fpos = 0, feof = False, room = 0\<rparr>"
  have f: "pcap_trace_file ?f [ex_syn]"
    unfolding pcap_trace_file_def
    by (simp, rule exI [of _ pcap_header_bytes], rule conjI, simp add: pcap_header_bytes_def)
      (rule exI [of _ "[(0, 0)]"], simp)
  have g: "good_trace booted_ss 5 [ex_syn]" "wire_ok ex_syn"
    "map clip (sent_on booted_ss (pkt_key booted_ss ex_syn) [ex_syn]) = [ex_syn]" by code_simp+
  show ?thesis
    using trace_reaches_hardware [of "\<lambda>_ _. Some ?f" ?f "[ex_syn]" 5 "replicate 130 ex_env"]
      f g ex_setup(5,6) by (fastforce simp: list_all_iff)
qed

section \<open>From the hardware to the report\<close>

text \<open>
  C2: the simulation as a test of the hardware: after initialisation on a well-formed trace, whose IP
  headers are all of the same length, the simulator calls \<open>get_data\<close> and \<open>put_data\<close> in any order and
  with any beats. The hypotheses on the run: whenever a call makes the network side ask the backend
  for a packet, the uninitialised byte of the stack array that the backend reads as the header length
  holds that length; the packets that the hardware sends have whole headers; and they have the sizes
  of the reference packets they are paired with. Then
  every call returns and the backend stays alive. On every flow the packets of the hardware
  are paired with the reference packets of the trace in order, all pairs are compared once the
  hardware has had the last word, and the differing bytes of exactly the compared pairs are
  reported, each once. Nothing is reported if and only if all compared pairs are equal.
\<close>

theorem simulation_checks_hardware:
  assumes f: "fopen TRACE_FILE_PATH ''rb'' = Some f" "pcap_trace_file f ps" "good_trace booted_ss h ps"
    and p: "list_all wire_ok ps" and xs: "list_all call_ok xs"
    and c: "init_network_side_state BACKEND fopen (\<lparr>backend_life = NullPtr, out = []\<rparr>, zeroed) = Inr c"
    and host: "list_all host_ok (get_envs (backend_calls xs c))"
    and stack_byte: "list_all (\<lambda>env. stack_ihl env = h) (get_envs (backend_calls xs c))"
    and whole_headers: "list_all pkt_ok (put_pkts (backend_calls xs c))"
    and s: "\<And>k. same_sizes (pairs_of (flow_ops booted_ss k False ps (backend_calls xs c)))"
  shows "\<exists>c' n. sim_run xs c = Inr c' \<and> backend_life (fst c') = Alive \<and>
    (\<forall>k. n k \<le> length (pairs_of (flow_ops booted_ss k False ps (backend_calls xs c))) \<and>
         (ends_with_test (flow_ops booted_ss k False ps (backend_calls xs c)) \<longrightarrow>
            n k = length (pairs_of (flow_ops booted_ss k False ps (backend_calls xs c))))) \<and>
    mset (mismatches (fst c')) = (\<Sum>k \<in> pkt_key booted_ss ` set ps.
       mset (reports (take (n k) (pairs_of (flow_ops booted_ss k False ps (backend_calls xs c)))))) \<and>
    (mismatches (fst c') = [] \<longleftrightarrow>
       (\<forall>k. \<forall>(r, t) \<in> set (take (n k) (pairs_of (flow_ops booted_ss k False ps (backend_calls xs c)))). r = t))"
proof -
  let ?a = "replay_start ps" and ?K = "pkt_key booted_ss ` set ps"
  have io: "list_all (io_ok h) (backend_calls xs c)"
    using host stack_byte whole_headers by (simp add: list_all_io_ok)
  obtain w s0 b where 1: "c = (w, s0)" "backend_life w = Alive" "instance_state s0 = booted_ss"
      "sim_backend s0 = TCPPcapTrace b" "replays booted_ss h b ?a" "rx_inv (rx_data_if s0)" "mismatches w = []"
    using init_from_trace [of fopen f ps h] f c by auto
  have "wires_ok ?a" using p by (simp add: wires_ok_def replay_start_def list_all_iff)
  then have "sim_checked booted_ss h ?K {#} c ?a (\<lambda>_. []) (\<lambda>_. 0)"
    using 1 new_checked [OF 1(5), of ?K w] by (simp add: sim_checked_def replay_start_def)
  from sim_checked_run [OF booted_wf this xs io] s obtain c' a' n b' where
    2: "sim_run xs c = Inr c'" "backend_life (fst c') = Alive"
      "checked ?K b' (fst c') {#} (\<lambda>k. flow_ops booted_ss k False ps (backend_calls xs c)) n"
    by (fastforce simp: sim_checked_def replay_start_def)
  note d = checkedD [OF 2(3)]
  have "mismatches (fst c') = [] \<longleftrightarrow> mset (mismatches (fst c')) = {#}" by simp
  also note checked_reports_iff [OF 2(3) s]
  finally show ?thesis using 2(1,2) d(2,5,6)
    by (intro exI [of _ c'] exI [of _ n] conjI allI impI) simp_all
qed

text \<open>
  An example: the trace holds one reference packet, and the hardware sends it in two beats with one
  byte changed.
\<close>

definition ex_trace :: cfile where
  "ex_trace = \<lparr>contents = pcap_header_bytes @ trace_bytes [(0, 0)] [ex_ref 7], fpos = 0, feof = False, room = 0\<rparr>"

definition ex_calls :: "sim_call list" where
  "ex_calls = [GetData ex_env, PutData ex_env (rev (take 32 (ex_ref 8))) False 0,
     PutData ex_env (replicate 9 0 @ rev (drop 32 (ex_ref 8))) True 9]"

lemma ex_trace_ok: "pcap_trace_file ex_trace [ex_ref 7]" "good_trace booted_ss 5 [ex_ref 7]" "list_all wire_ok [ex_ref 7]"
proof -
  show "pcap_trace_file ex_trace [ex_ref 7]"
    unfolding pcap_trace_file_def ex_trace_def
    by (simp, rule exI [of _ pcap_header_bytes], rule conjI, simp add: pcap_header_bytes_def)
      (rule exI [of _ "[(0, 0)]"], simp)
  show "good_trace booted_ss 5 [ex_ref 7]" "list_all wire_ok [ex_ref 7]" by code_simp+
qed

lemma ex_calls_ok: "list_all call_ok ex_calls" "length (ex_ref d) = 55"
  using ex_setup(5) by (simp_all add: ex_calls_def call_ok_def ex_ref_def)

lemma ex_backend_calls:
  "\<exists>c. init_network_side_state BACKEND (\<lambda>_ _. Some ex_trace) (\<lparr>backend_life = NullPtr, out = []\<rparr>, zeroed) = Inr c \<and>
     backend_calls ex_calls c = [GetOp ex_env, PutOp ex_env (ex_ref 8)]"
proof -
  let ?K = "pkt_key booted_ss ` set [ex_ref 7]" and ?v = "rev (take 32 (ex_ref 8))"
  obtain w s b where 1: "init_network_side_state BACKEND (\<lambda>_ _. Some ex_trace) (\<lparr>backend_life = NullPtr, out = []\<rparr>, zeroed) = Inr (w, s)"
      "backend_life w = Alive" "instance_state s = booted_ss" "sim_backend s = TCPPcapTrace b"
      "replays booted_ss 5 b (replay_start [ex_ref 7])" "rx_inv (rx_data_if s)" "\<not> delivering (rx_data_if s)"
      "tx_buffer (tx_data_if s) = []"
    using init_from_trace [of "\<lambda>_ _. Some ex_trace" ex_trace "[ex_ref 7]" 5] ex_trace_ok by auto
  have "sim_checked booted_ss 5 ?K (mset (mismatches w)) (w, s) (replay_start [ex_ref 7]) (\<lambda>_. []) (\<lambda>_. 0)"
    using 1 ex_trace_ok(3) new_checked [OF 1(5), of ?K w] by (simp add: sim_checked_def wires_ok_def replay_start_def)
  moreover have "call_ok (GetData ex_env)" "list_all (io_ok 5) (step_calls (GetData ex_env) s)"
    using ex_setup(4,5) 1(7) by (simp_all add: call_ok_def step_calls_def io_ok_def)
  ultimately obtain w1 s1 where
    2: "get_data virtual_get virtual_put ex_env (w, s) = Inr (w1, s1)"
    using sim_checked_get [OF booted_wf] by blast
  have tx: "tx_buffer (tx_data_if s1) = []" using sim.get_data_tx [OF 2] 1(8) by simp
  have v: "length ?v = 32" using ex_calls_ok(2) [of 8] by simp
  obtain w2 where 3: "put_data virtual_put ex_env ?v False 0 (w1, s1) =
      Inr (w2, s1\<lparr>tx_data_if := (tx_data_if s1)\<lparr>tx_buffer := take 32 (ex_ref 8)\<rparr>\<rparr>)"
    using put_data_appends [OF v, of False 0 w1 virtual_put ex_env s1] tx by (auto simp: Let_def beat_bytes_def)
  have "backend_calls ex_calls (w, s) = [GetOp ex_env, PutOp ex_env (ex_ref 8)]"
    using 1(7) 2 3 by (simp add: ex_calls_def step_calls_def beat_bytes_def split: sum.split)
  with 1(1) show ?thesis by blast
qed

lemma ex_flow_ops1:
  "flow_ops booted_ss k False [ex_ref 7] [GetOp ex_env, PutOp ex_env (ex_ref 8)] =
     (if k = pkt_key booted_ss (ex_ref 8) then [Ref (ex_ref 7), Test (ex_ref 8)] else [])"
proof -
  have "pkt_key booted_ss (ex_ref 7) = pkt_key booted_ss (ex_ref 8)" "\<not> for_us booted_ss (ex_ref 7)" by code_simp+
  then show ?thesis by auto
qed

theorem simulation_checks_hardware_witness:
  "\<exists>c c'. init_network_side_state BACKEND (\<lambda>_ _. Some ex_trace) (\<lparr>backend_life = NullPtr, out = []\<rparr>, zeroed) = Inr c \<and>
    sim_run ex_calls c = Inr c' \<and>
    mset (mismatches (fst c')) =
      {#Print ''recved pkt different at byte %d. Expected %hhx, Got %hhx'' [54, 7, 8]#}"
proof -
  obtain c where c: "init_network_side_state BACKEND (\<lambda>_ _. Some ex_trace) (\<lparr>backend_life = NullPtr, out = []\<rparr>, zeroed) = Inr c"
      "backend_calls ex_calls c = [GetOp ex_env, PutOp ex_env (ex_ref 8)]"
    using ex_backend_calls by blast
  have ok: "list_all host_ok (get_envs (backend_calls ex_calls c))"
      "list_all (\<lambda>env. stack_ihl env = 5) (get_envs (backend_calls ex_calls c))"
      "list_all pkt_ok (put_pkts (backend_calls ex_calls c))"
    using ex_setup(5,6) ex_setup2(3) by (simp_all add: c(2))
  have s: "same_sizes (pairs_of (flow_ops booted_ss k False [ex_ref 7] (backend_calls ex_calls c)))" for k
    unfolding c(2) ex_flow_ops1 using ex_calls_ok(2) by (simp add: pairs_of_def same_sizes_def)
  have r: "reports [(ex_ref 7, ex_ref 8)] =
      [Print ''recved pkt different at byte %d. Expected %hhx, Got %hhx'' [54, 7, 8]]" by code_simp
  have k: "pkt_key booted_ss ` set [ex_ref 7] = {pkt_key booted_ss (ex_ref 8)}"
  proof -
    have "pkt_key booted_ss (ex_ref 7) = pkt_key booted_ss (ex_ref 8)" by code_simp
    then show ?thesis by simp
  qed
  have "ends_with_test (flow_ops booted_ss (pkt_key booted_ss (ex_ref 8)) False [ex_ref 7] (backend_calls ex_calls c))"
    "pairs_of (flow_ops booted_ss (pkt_key booted_ss (ex_ref 8)) False [ex_ref 7] (backend_calls ex_calls c)) = [(ex_ref 7, ex_ref 8)]"
    unfolding c(2) ex_flow_ops1 by (simp_all add: ends_with_test_def pairs_of_def)
  with simulation_checks_hardware [of "\<lambda>_ _. Some ex_trace" ex_trace "[ex_ref 7]" 5 ex_calls c,
      OF refl ex_trace_ok ex_calls_ok(1) c(1) ok s]
  show ?thesis using c(1) r k by auto
qed

end
